theory Spec2Isabelle
  imports Complex_Main "HOL-Library.AList"
begin

section \<open>Errors\<close>

text \<open>
  Every exception that \<open>dumper.py\<close> can raise is a value of \<open>error\<close>; a function of the
  source that can raise returns \<open>error + 'a\<close>, with \<open>Inl\<close> for the exception.
  \<^item> \<open>NoMoreChannel\<close>: \<open>raise Exception('No more channel available.')\<close> in
    \<open>ChannelProvider.generate_channel\<close>;
  \<^item> \<open>AttributeError\<close>: the guard on the number of BPM entries builds its message from
    \<open>bpms.length\<close>, and a Python list has no attribute \<open>length\<close>, so this is the exception
    that leaves \<open>dumps\<close> when the guard fires;
  \<^item> \<open>ZeroDivisionError\<close>, \<open>IndexError\<close>, \<open>ValueError\<close>: raised by the arithmetic, by
    \<open>request.split()[1]\<close> and by \<open>int(...)\<close> and \<open>range(...)\<close>.
\<close>

datatype error = NoMoreChannel | AttributeError | ZeroDivisionError | IndexError | ValueError

section \<open>Python built-ins and the base36 library\<close>

text \<open>
  Python's \<open>int\<close> is unbounded: it is \<open>int\<close> here. A Python \<open>float\<close> (bar lengths, BPM
  values) is taken as the rational number it denotes, so the arithmetic of the model is
  exact; \<open>//\<close> and \<open>%\<close> on integers round towards minus infinity, as \<open>div\<close> and \<open>mod\<close> on
  \<open>int\<close> do, and division by zero is written out as \<open>ZeroDivisionError\<close> where the source
  divides.
\<close>

text \<open>\<open>int(x)\<close> on a float truncates towards zero.\<close>

definition py_int :: "rat \<Rightarrow> int" where
  "py_int x = (if 0 \<le> x then \<lfloor>x\<rfloor> else \<lceil>x\<rceil>)"

definition alphabet :: string where
  "alphabet = ''0123456789abcdefghijklmnopqrstuvwxyz''"

text \<open>\<open>str(n)\<close> on an integer.\<close>

fun digits10 :: "nat \<Rightarrow> string" where
  "digits10 n = (if n < 10 then [alphabet ! n] else digits10 (n div 10) @ [alphabet ! (n mod 10)])"

declare digits10.simps [simp del]

definition str_int :: "int \<Rightarrow> string" where
  "str_int n = (if n < 0 then CHR ''-'' # digits10 (nat (- n)) else digits10 (nat n))"

text \<open>
  \<open>base36.dumps\<close>: the \<open>while number != 0\<close> loop prepends one digit of the alphabet per
  iteration; the empty result stands for \<open>'0'\<close>, a negative number gets a minus sign.
\<close>

fun base36_loop :: "nat \<Rightarrow> string \<Rightarrow> string" where
  "base36_loop number acc =
     (if number \<noteq> 0 then base36_loop (number div 36) (alphabet ! (number mod 36) # acc) else acc)"

declare base36_loop.simps [simp del]

definition base36_dumps_nat :: "nat \<Rightarrow> string" where
  "base36_dumps_nat number = (let v = base36_loop number [] in if v = [] then ''0'' else v)"

definition base36_dumps :: "int \<Rightarrow> string" where
  "base36_dumps number =
     (if number < 0 then CHR ''-'' # base36_dumps_nat (nat (- number))
      else base36_dumps_nat (nat number))"

text \<open>\<open>s.zfill(width)\<close>: zeros on the left, after a leading sign.\<close>

definition zfill :: "nat \<Rightarrow> string \<Rightarrow> string" where
  "zfill w s =
     (case s of
        c # cs \<Rightarrow>
          if c = CHR ''+'' \<or> c = CHR ''-'' then c # replicate (w - length s) CHR ''0'' @ cs
          else replicate (w - length s) CHR ''0'' @ s
      | [] \<Rightarrow> replicate w CHR ''0'')"

text \<open>The format \<open>{n:03}\<close> of an integer: sign-aware zero padding to width 3.\<close>

definition format_03 :: "int \<Rightarrow> string" where
  "format_03 n = zfill 3 (str_int n)"

text \<open>
  \<open>format_number\<close>: \<open>str(int(value) if value % 1 == 0 else value)\<close>. The text that
  \<open>str\<close> gives for a float with a fractional part is the parameter \<open>repr_float\<close>.
\<close>

definition format_number :: "(rat \<Rightarrow> string) \<Rightarrow> rat \<Rightarrow> string" where
  "format_number repr_float v = (if v = of_int \<lfloor>v\<rfloor> then str_int (py_int v) else repr_float v)"

definition sep :: "bool \<Rightarrow> string" where
  "sep space = (if space then [CHR 0x20] else [])"

definition dquote :: char where
  "dquote = CHR 0x22"

text \<open>\<open>s.startswith(p)\<close>.\<close>

definition startswith :: "string \<Rightarrow> string \<Rightarrow> bool" where
  "startswith s p = (take (length p) s = p)"

text \<open>\<open>s.upper()\<close> on ASCII letters (field names are Python identifiers).\<close>

definition upper_char :: "char \<Rightarrow> char" where
  "upper_char c =
     (case map_of (zip ''abcdefghijklmnopqrstuvwxyz'' ''ABCDEFGHIJKLMNOPQRSTUVWXYZ'') c of
        Some u \<Rightarrow> u | None \<Rightarrow> c)"

definition upper :: "string \<Rightarrow> string" where
  "upper s = map upper_char s"

text \<open>\<open>s.split()\<close>: the maximal runs of characters that are not whitespace.\<close>

definition is_space :: "char \<Rightarrow> bool" where
  "is_space c = (c \<in> set [CHR 0x09, CHR 0x0A, CHR 0x0B, CHR 0x0C, CHR 0x0D,
                          CHR 0x1C, CHR 0x1D, CHR 0x1E, CHR 0x1F, CHR 0x20])"

fun split_ws :: "string \<Rightarrow> string \<Rightarrow> string list" where
  "split_ws [] cur = (if cur = [] then [] else [cur])"
| "split_ws (c # cs) cur =
     (if is_space c then (if cur = [] then split_ws cs [] else cur # split_ws cs [])
      else split_ws cs (cur @ [c]))"

definition py_split :: "string \<Rightarrow> string list" where
  "py_split s = split_ws s []"

text \<open>
  \<open>int(s)\<close> on a string without whitespace: an optional sign, then decimal digits, single
  underscores allowed between digits; anything else is a \<open>ValueError\<close>.
\<close>

definition digit_value :: "char \<Rightarrow> nat option" where
  "digit_value c = map_of (zip ''0123456789'' [0..<10]) c"

fun parse_digits :: "string \<Rightarrow> bool \<Rightarrow> nat \<Rightarrow> nat option" where
  "parse_digits [] after_digit acc = (if after_digit then Some acc else None)"
| "parse_digits (c # cs) after_digit acc =
     (case digit_value c of
        Some d \<Rightarrow> parse_digits cs True (acc * 10 + d)
      | None \<Rightarrow> if c = CHR ''_'' \<and> after_digit then
                  (case cs of
                     [] \<Rightarrow> None
                   | c' # _ \<Rightarrow> if digit_value c' = None then None else parse_digits cs False acc)
                else None)"

definition int_of_str :: "string \<Rightarrow> error + int" where
  "int_of_str s =
     (case s of
        [] \<Rightarrow> Inl ValueError
      | c # cs \<Rightarrow>
          if c = CHR ''-'' then
            (case parse_digits cs False 0 of Some n \<Rightarrow> Inr (- int n) | None \<Rightarrow> Inl ValueError)
          else if c = CHR ''+'' then
            (case parse_digits cs False 0 of Some n \<Rightarrow> Inr (int n) | None \<Rightarrow> Inl ValueError)
          else
            (case parse_digits s False 0 of Some n \<Rightarrow> Inr (int n) | None \<Rightarrow> Inl ValueError))"

text \<open>\<open>sep.join(xs)\<close>.\<close>

fun join :: "string \<Rightarrow> string list \<Rightarrow> string" where
  "join s [] = []"
| "join s [x] = x"
| "join s (x # y # ys) = x @ s @ join s (y # ys)"

text \<open>
  \<open>range(0, stop, step)\<close> for a step that is not 0: the multiples of \<open>step\<close> from 0 that
  lie before \<open>stop\<close>, upwards for a positive step and downwards for a negative one.
\<close>

definition py_range :: "int \<Rightarrow> int \<Rightarrow> int list" where
  "py_range stop step =
     map (\<lambda>k. int k * step) [0..<nat ((stop * sgn step + \<bar>step\<bar> - 1) div \<bar>step\<bar>)]"

section \<open>ChannelProvider\<close>

text \<open>
  \<open>channel_map\<close> is a Python dict from channel id to \<open>(start, end)\<close>. Its iteration order
  is its insertion order, so it is an association list; assigning to a key that is
  present keeps the key's position.
\<close>

type_synonym channel_map = "(nat \<times> (int \<times> int)) list"

definition channel_provider_init :: channel_map where
  "channel_provider_init = map (\<lambda>key. (key, (0, 0))) [0..<36]"

text \<open>The \<open>for\<close> loop of \<open>generate_channel\<close>: the first key whose condition holds.\<close>

fun find_channel :: "channel_map \<Rightarrow> int \<Rightarrow> int \<Rightarrow> nat option" where
  "find_channel [] start_tick end_tick = None"
| "find_channel ((key, (start, end)) # rest) start_tick end_tick =
     (if (start = 0 \<and> end = 0) \<or> end_tick < start \<or> end < start_tick then Some key
      else find_channel rest start_tick end_tick)"

definition generate_channel :: "channel_map \<Rightarrow> int \<Rightarrow> int \<Rightarrow> error + (nat \<times> channel_map)" where
  "generate_channel channel_map start_tick end_tick =
     (case find_channel channel_map start_tick end_tick of
        Some key \<Rightarrow> Inr (key, AList.update key (start_tick, end_tick) channel_map)
      | None \<Rightarrow> Inl NoMoreChannel)"

text \<open>The overlap of two bound intervals, as the data model states it.\<close>

definition overlaps :: "int \<times> int \<Rightarrow> int \<times> int \<Rightarrow> bool" where
  "overlaps a b = (\<not> (snd a < fst b \<or> snd b < fst a))"

section \<open>Data model\<close>

text \<open>
  \<open>Note\<close>, \<open>BarLength\<close> and \<open>Score\<close> are the dataclasses of the package's \<open>schemas\<close> module,
  with the fields that \<open>dumper.py\<close> reads. \<open>BarLength(start_tick, measure, value)\<close> is what
  \<open>dumps\<close> builds for each bar-length change.
\<close>

record Note =
  note_tick :: int
  note_lane :: int
  note_width :: int
  note_type :: int

record BarLength =
  bl_start_tick :: int
  bl_measure :: int
  bl_value :: rat

text \<open>
  \<open>fields(score.metadata)\<close> is the list of the dataclass fields in declaration order. A
  field is a string (its type is \<open>Optional[str]\<close>), a number, or the field \<open>requests\<close>, a
  list of strings; each may be \<open>None\<close>. The first component is \<open>field.name\<close>.
\<close>

datatype field =
    StrField string "string option"
  | NumField string "rat option"
  | RequestsField "string list option"

record Score =
  score_metadata :: "field list"
  score_taps :: "Note list"
  score_directionals :: "Note list"
  score_slides :: "Note list list"
  score_guides :: "Note list list"
  score_bpms :: "(int \<times> rat) list"
  score_bar_lengths :: "(int \<times> rat) list"
  score_tils :: "(int \<times> rat) list"

text \<open>
  \<open>note_maps\<close> is a \<open>defaultdict\<close> from the tag \<open>f'{current_measure:03}{info}'\<close> to a dict
  with the keys \<open>'raws'\<close> and \<open>'ticks_per_measure'\<close>. Its items are rendered in insertion
  order, so it is an association list; \<open>AList.update\<close> keeps the place of a tag that is
  present and appends a new one.
\<close>

record note_map =
  raws :: "(int \<times> string) list"
  ticks_per_measure :: int

type_synonym note_maps = "(string \<times> note_map) list"

text \<open>The default of the \<open>defaultdict\<close>.\<close>

definition note_maps_get :: "note_maps \<Rightarrow> string \<Rightarrow> note_map" where
  "note_maps_get nm key =
     (case map_of nm key of
        Some m \<Rightarrow> m
      | None \<Rightarrow> \<lparr>raws = [], ticks_per_measure = 0\<rparr>)"

section \<open>The measure timeline\<close>

text \<open>
  The loop over \<open>enumerate(bar_lengths)\<close>: \<open>nextMeasure\<close> is the measure of the following
  entry, or 0 after the last one; \<open>accumulated_ticks\<close> is the running start tick.
\<close>

fun bar_lengths_loop :: "int \<Rightarrow> int \<Rightarrow> (int \<times> rat) list \<Rightarrow> BarLength list" where
  "bar_lengths_loop ticks_per_beat accumulated_ticks [] = []"
| "bar_lengths_loop ticks_per_beat accumulated_ticks ((m, v) # rest) =
     (let nextMeasure = (case rest of [] \<Rightarrow> 0 | (m', v') # rest' \<Rightarrow> m')
      in \<lparr>bl_start_tick = accumulated_ticks, bl_measure = m, bl_value = v\<rparr>
         # bar_lengths_loop ticks_per_beat
             (accumulated_ticks + py_int (of_int (nextMeasure - m) * v * of_int ticks_per_beat))
             rest)"

text \<open>\<open>bar_lengths_in_ticks\<close> after \<open>reverse()\<close>.\<close>

definition bar_lengths_in_ticks :: "int \<Rightarrow> (int \<times> rat) list \<Rightarrow> BarLength list" where
  "bar_lengths_in_ticks ticks_per_beat bar_lengths = rev (bar_lengths_loop ticks_per_beat 0 bar_lengths)"

text \<open>
  \<open>push_raw\<close>: the first entry of the reversed list with \<open>tick >= start_tick\<close> receives the
  push; when there is none, nothing happens. The two float divisions raise on a zero
  divisor. The recorded offset is \<open>tick - bar_length.start_tick\<close>.
\<close>

definition find_bar_length :: "BarLength list \<Rightarrow> int \<Rightarrow> BarLength option" where
  "find_bar_length segs tick = find (\<lambda>bar_length. bl_start_tick bar_length \<le> tick) segs"

definition current_measure :: "int \<Rightarrow> BarLength \<Rightarrow> int \<Rightarrow> int" where
  "current_measure ticks_per_beat bar_length tick =
     bl_measure bar_length
     + py_int (of_int (tick - bl_start_tick bar_length) / of_int ticks_per_beat / bl_value bar_length)"

definition push_raw ::
  "BarLength list \<Rightarrow> int \<Rightarrow> note_maps \<Rightarrow> int \<Rightarrow> string \<Rightarrow> string \<Rightarrow> error + note_maps" where
  "push_raw segs ticks_per_beat nm tick info data =
     (case find_bar_length segs tick of
        None \<Rightarrow> Inr nm
      | Some bar_length \<Rightarrow>
          if ticks_per_beat = 0 \<or> bl_value bar_length = 0 then Inl ZeroDivisionError
          else
            let key = format_03 (current_measure ticks_per_beat bar_length tick) @ info;
                m = note_maps_get nm key
            in Inr (AList.update key
                      \<lparr>raws = raws m @ [(tick - bl_start_tick bar_length, data)],
                       ticks_per_measure = py_int (bl_value bar_length * of_int ticks_per_beat)\<rparr>
                      nm))"

text \<open>
  A sequence of calls of \<open>push_raw\<close>, one after another as \<open>dumps\<close> makes them: each
  element is \<open>(tick, info, data)\<close>.
\<close>

fun push_all ::
  "BarLength list \<Rightarrow> int \<Rightarrow> (int \<times> string \<times> string) list \<Rightarrow> note_maps \<Rightarrow> error + note_maps" where
  "push_all segs ticks_per_beat [] nm = Inr nm"
| "push_all segs ticks_per_beat ((tick, info, data) # rest) nm =
     (case push_raw segs ticks_per_beat nm tick info data of
        Inl e \<Rightarrow> Inl e
      | Inr nm' \<Rightarrow> push_all segs ticks_per_beat rest nm')"

section \<open>Rendering a note line\<close>

text \<open>
  The body of the loop over \<open>note_maps.items()\<close>. \<open>resolution\<close> is the variable \<open>gcd\<close> of
  the source; \<open>render_data\<close> is the dict \<open>data\<close>, where a later raw with the same key
  replaces an earlier one; \<open>render_values\<close> is the list \<open>values\<close>. \<open>raw[0] % 0\<close> raises
  \<open>ZeroDivisionError\<close>, \<open>range\<close> with step 0 raises \<open>ValueError\<close>.
\<close>

definition resolution :: "note_map \<Rightarrow> int" where
  "resolution m = fold (\<lambda>raw g. gcd (fst raw) g) (raws m) (ticks_per_measure m)"

definition render_data :: "note_map \<Rightarrow> (int \<rightharpoonup> string)" where
  "render_data m =
     fold (\<lambda>raw d. d(fst raw mod ticks_per_measure m \<mapsto> snd raw)) (raws m) Map.empty"

definition cell :: "(int \<rightharpoonup> string) \<Rightarrow> int \<Rightarrow> string" where
  "cell d i = (case d i of None \<Rightarrow> ''00'' | Some s \<Rightarrow> if s = [] then ''00'' else s)"

definition render_values :: "note_map \<Rightarrow> error + string list" where
  "render_values m =
     (if raws m \<noteq> [] \<and> ticks_per_measure m = 0 then Inl ZeroDivisionError
      else if resolution m = 0 then Inl ValueError
      else Inr (map (cell (render_data m)) (py_range (ticks_per_measure m) (resolution m))))"

definition render_line :: "bool \<Rightarrow> string \<Rightarrow> note_map \<Rightarrow> error + string" where
  "render_line space tag m =
     (case render_values m of
        Inl e \<Rightarrow> Inl e
      | Inr vs \<Rightarrow> Inr (''#'' @ tag @ '':'' @ sep space @ concat vs))"

fun render_all :: "bool \<Rightarrow> note_maps \<Rightarrow> error + string list" where
  "render_all space [] = Inr []"
| "render_all space ((tag, m) # rest) =
     (case render_line space tag m of
        Inl e \<Rightarrow> Inl e
      | Inr l \<Rightarrow> (case render_all space rest of Inl e \<Rightarrow> Inl e | Inr ls \<Rightarrow> Inr (l # ls)))"

section \<open>The serializer\<close>

subsection \<open>Metadata\<close>

text \<open>
  The loop over \<open>score.metadata.requests\<close>: one directive per request; a request that
  starts with \<open>ticks_per_beat\<close> sets \<open>ticks_per_beat\<close> to \<open>int(request.split()[1])\<close>.
\<close>

fun dump_requests :: "string list \<Rightarrow> string list \<Rightarrow> int \<Rightarrow> error + (string list \<times> int)" where
  "dump_requests [] lines ticks_per_beat = Inr (lines, ticks_per_beat)"
| "dump_requests (request # rest) lines ticks_per_beat =
     (let lines' = lines @ [''#REQUEST '' @ [dquote] @ request @ [dquote]]
      in if startswith request ''ticks_per_beat'' then
           (case py_split request of
              a # b # _ \<Rightarrow>
                (case int_of_str b of
                   Inl e \<Rightarrow> Inl e
                 | Inr n \<Rightarrow> dump_requests rest lines' n)
            | _ \<Rightarrow> Inl IndexError)
         else dump_requests rest lines' ticks_per_beat)"

text \<open>
  The loop over \<open>fields(score.metadata)\<close>: a field that is \<open>None\<close> is skipped; the field
  \<open>requests\<close> appends an empty line and then its directives; any other field gives
  \<open>#NAME value\<close>, a string between double quotes and a number through \<open>format_number\<close>.
\<close>

fun dump_metadata ::
  "(rat \<Rightarrow> string) \<Rightarrow> field list \<Rightarrow> string list \<Rightarrow> int \<Rightarrow> error + (string list \<times> int)" where
  "dump_metadata repr_float [] lines ticks_per_beat = Inr (lines, ticks_per_beat)"
| "dump_metadata repr_float (StrField name None # rest) lines ticks_per_beat =
     dump_metadata repr_float rest lines ticks_per_beat"
| "dump_metadata repr_float (NumField name None # rest) lines ticks_per_beat =
     dump_metadata repr_float rest lines ticks_per_beat"
| "dump_metadata repr_float (RequestsField None # rest) lines ticks_per_beat =
     dump_metadata repr_float rest lines ticks_per_beat"
| "dump_metadata repr_float (StrField name (Some attr) # rest) lines ticks_per_beat =
     dump_metadata repr_float rest
       (lines @ [''#'' @ upper name @ '' '' @ [dquote] @ attr @ [dquote]]) ticks_per_beat"
| "dump_metadata repr_float (NumField name (Some attr) # rest) lines ticks_per_beat =
     dump_metadata repr_float rest
       (lines @ [''#'' @ upper name @ '' '' @ format_number repr_float attr]) ticks_per_beat"
| "dump_metadata repr_float (RequestsField (Some requests) # rest) lines ticks_per_beat =
     (case dump_requests requests (lines @ [[]]) ticks_per_beat of
        Inl e \<Rightarrow> Inl e
      | Inr (lines', ticks_per_beat') \<Rightarrow> dump_metadata repr_float rest lines' ticks_per_beat')"

subsection \<open>Bar lengths, BPMs and timescales\<close>

definition bar_length_line :: "(rat \<Rightarrow> string) \<Rightarrow> bool \<Rightarrow> int \<times> rat \<Rightarrow> string" where
  "bar_length_line repr_float space b =
     ''#'' @ format_03 (fst b) @ ''02:'' @ sep space @ format_number repr_float (snd b)"

definition bpm_line :: "(rat \<Rightarrow> string) \<Rightarrow> bool \<Rightarrow> string \<Rightarrow> rat \<Rightarrow> string" where
  "bpm_line repr_float space identifier v =
     ''#BPM'' @ identifier @ '':'' @ sep space @ format_number repr_float v"

text \<open>
  The loop over \<open>bpms\<close>. \<open>bpm_identifiers\<close> is a dict from value to identifier, here an
  association list in insertion order; \<open>identifier\<close> is computed from its size before the
  membership test, and used only for a value that is not yet a key.
\<close>

fun dump_bpms ::
  "(rat \<Rightarrow> string) \<Rightarrow> bool \<Rightarrow> BarLength list \<Rightarrow> int \<Rightarrow> (int \<times> rat) list \<Rightarrow>
   (rat \<times> string) list \<Rightarrow> string list \<Rightarrow> note_maps \<Rightarrow>
   error + ((rat \<times> string) list \<times> string list \<times> note_maps)" where
  "dump_bpms repr_float space segs ticks_per_beat [] bpm_identifiers lines nm =
     Inr (bpm_identifiers, lines, nm)"
| "dump_bpms repr_float space segs ticks_per_beat ((tick, v) # rest) bpm_identifiers lines nm =
     (let identifier = zfill 2 (base36_dumps (int (length bpm_identifiers) + 1))
      in case map_of bpm_identifiers v of
           None \<Rightarrow>
             (case push_raw segs ticks_per_beat nm tick ''08'' identifier of
                Inl e \<Rightarrow> Inl e
              | Inr nm' \<Rightarrow>
                  dump_bpms repr_float space segs ticks_per_beat rest
                    (bpm_identifiers @ [(v, identifier)])
                    (lines @ [bpm_line repr_float space identifier v]) nm')
         | Some known \<Rightarrow>
             (case push_raw segs ticks_per_beat nm tick ''08'' known of
                Inl e \<Rightarrow> Inl e
              | Inr nm' \<Rightarrow>
                  dump_bpms repr_float space segs ticks_per_beat rest bpm_identifiers lines nm'))"

text \<open>
  One entry of \<open>til_list\<close>: \<open>f"{tick//(ticks_per_beat*4)}'{tick%(ticks_per_beat*4)}:{value}"\<close>;
  the value is printed by \<open>str\<close>, which is \<open>repr_float\<close>.
\<close>

definition til_entry :: "(rat \<Rightarrow> string) \<Rightarrow> int \<Rightarrow> int \<times> rat \<Rightarrow> string" where
  "til_entry repr_float ticks_per_beat t =
     str_int (fst t div (ticks_per_beat * 4)) @ [CHR 0x27]
     @ str_int (fst t mod (ticks_per_beat * 4)) @ '':'' @ repr_float (snd t)"

definition til_line :: "(rat \<Rightarrow> string) \<Rightarrow> int \<Rightarrow> (int \<times> rat) list \<Rightarrow> error + string" where
  "til_line repr_float ticks_per_beat tils =
     (if tils \<noteq> [] \<and> ticks_per_beat * 4 = 0 then Inl ZeroDivisionError
      else Inr (''#TIL00: '' @ [dquote]
                @ join '', '' (map (til_entry repr_float ticks_per_beat) tils) @ [dquote]))"

subsection \<open>Notes\<close>

definition note_data :: "Note \<Rightarrow> string" where
  "note_data note = str_int (note_type note) @ base36_dumps (note_width note)"

text \<open>
  The \<open>for\<close> statements over \<open>taps\<close> (category \<open>1\<close>) and \<open>directionals\<close> (category \<open>5\<close>), and the inner
  loop over the steps of a slide (\<open>3\<close>) or guide (\<open>9\<close>), whose tag carries the channel.
\<close>

fun push_notes ::
  "BarLength list \<Rightarrow> int \<Rightarrow> string \<Rightarrow> string \<Rightarrow> Note list \<Rightarrow> note_maps \<Rightarrow> error + note_maps" where
  "push_notes segs ticks_per_beat category suffix [] nm = Inr nm"
| "push_notes segs ticks_per_beat category suffix (note # rest) nm =
     (case push_raw segs ticks_per_beat nm (note_tick note)
             (category @ base36_dumps (note_lane note) @ suffix) (note_data note) of
        Inl e \<Rightarrow> Inl e
      | Inr nm' \<Rightarrow> push_notes segs ticks_per_beat category suffix rest nm')"

text \<open>
  The loop over \<open>slides\<close> or \<open>guides\<close> with its \<open>ChannelProvider\<close>: one channel per group,
  for \<open>steps[0].tick\<close> to \<open>steps[-1].tick\<close>.
\<close>

fun push_groups ::
  "BarLength list \<Rightarrow> int \<Rightarrow> string \<Rightarrow> Note list list \<Rightarrow> channel_map \<Rightarrow> note_maps \<Rightarrow>
   error + note_maps" where
  "push_groups segs ticks_per_beat category [] provider nm = Inr nm"
| "push_groups segs ticks_per_beat category ([] # rest) provider nm = Inl IndexError"
| "push_groups segs ticks_per_beat category ((s # ss) # rest) provider nm =
     (case generate_channel provider (note_tick s) (note_tick (last (s # ss))) of
        Inl e \<Rightarrow> Inl e
      | Inr (channel, provider') \<Rightarrow>
          (case push_notes segs ticks_per_beat category (base36_dumps (int channel)) (s # ss) nm of
             Inl e \<Rightarrow> Inl e
           | Inr nm' \<Rightarrow> push_groups segs ticks_per_beat category rest provider' nm'))"

subsection \<open>dumps\<close>

text \<open>
  The sections of \<open>dumps\<close> after the metadata, with \<open>ticks_per_beat\<close> settled. \<open>sorted\<close> is
  stable, as \<open>sort_key\<close> is; the key of a slide or guide is \<open>x[0].tick\<close>, which raises
  \<open>IndexError\<close> on an empty group.
\<close>

definition dumps_score ::
  "(rat \<Rightarrow> string) \<Rightarrow> bool \<Rightarrow> Score \<Rightarrow> int \<Rightarrow> string list \<Rightarrow> error + string list" where
  "dumps_score repr_float space score ticks_per_beat lines0 =
     (let bar_lengths = sort_key fst (score_bar_lengths score);
          bpms = sort_key fst (score_bpms score);
          taps = sort_key note_tick (score_taps score);
          directionals = sort_key note_tick (score_directionals score)
      in if [] \<in> set (score_slides score) \<or> [] \<in> set (score_guides score) then Inl IndexError
         else
           let slides = sort_key (\<lambda>x. note_tick (hd x)) (score_slides score);
               guides = sort_key (\<lambda>x. note_tick (hd x)) (score_guides score);
               tils = sort_key fst (score_tils score);
               lines1 = lines0 @ map (bar_length_line repr_float space) bar_lengths @ [[]];
               segs = bar_lengths_in_ticks ticks_per_beat bar_lengths
           in if 36 ^ 2 - 1 \<le> length bpms then Inl AttributeError
              else
                (case dump_bpms repr_float space segs ticks_per_beat bpms [] lines1 [] of
                   Inl e \<Rightarrow> Inl e
                 | Inr (bpm_identifiers, lines2, nm1) \<Rightarrow>
                (case til_line repr_float ticks_per_beat tils of
                   Inl e \<Rightarrow> Inl e
                 | Inr til \<Rightarrow>
                (case push_notes segs ticks_per_beat ''1'' [] taps nm1 of
                   Inl e \<Rightarrow> Inl e
                 | Inr nm2 \<Rightarrow>
                (case push_notes segs ticks_per_beat ''5'' [] directionals nm2 of
                   Inl e \<Rightarrow> Inl e
                 | Inr nm3 \<Rightarrow>
                (case push_groups segs ticks_per_beat ''3'' slides channel_provider_init nm3 of
                   Inl e \<Rightarrow> Inl e
                 | Inr nm4 \<Rightarrow>
                (case push_groups segs ticks_per_beat ''9'' guides channel_provider_init nm4 of
                   Inl e \<Rightarrow> Inl e
                 | Inr nm5 \<Rightarrow>
                (case render_all space nm5 of
                   Inl e \<Rightarrow> Inl e
                 | Inr note_lines \<Rightarrow>
                     Inr (lines2 @ [[]] @ [til, ''#HISPEED 00'', ''#MEASUREHS 00'', []]
                          @ note_lines @ [[]])))))))))"

text \<open>
  \<open>dumps_lines\<close> is the list \<open>lines\<close> at the \<open>return\<close>; \<open>dumps\<close> joins it with newlines.
  \<open>ticks_per_beat\<close> starts at 480.
\<close>

definition dumps_lines :: "(rat \<Rightarrow> string) \<Rightarrow> Score \<Rightarrow> string \<Rightarrow> bool \<Rightarrow> error + string list" where
  "dumps_lines repr_float score comment space =
     (case dump_metadata repr_float (score_metadata score) [comment] 480 of
        Inl e \<Rightarrow> Inl e
      | Inr (lines, ticks_per_beat) \<Rightarrow>
          dumps_score repr_float space score ticks_per_beat (lines @ [[]]))"

definition dumps :: "(rat \<Rightarrow> string) \<Rightarrow> Score \<Rightarrow> string \<Rightarrow> bool \<Rightarrow> error + string" where
  "dumps repr_float score comment space =
     (case dumps_lines repr_float score comment space of
        Inl e \<Rightarrow> Inl e
      | Inr lines \<Rightarrow> Inr (join [CHR 0x0A] lines))"

section \<open>The BPM table as the specification words it\<close>

text \<open>
  The distinct values of a list in the order of their first occurrence; the \<open>k\<close>-th
  nth_identifier (from 1) in base 36, filled to two characters; the table that gives the
  \<open>k\<close>-th distinct tempo value the \<open>k\<close>-th nth_identifier; and \<open>identifierFor\<close>, the lookup
  in that table.
\<close>

definition distinct_in_order :: "'a list \<Rightarrow> 'a list" where
  "distinct_in_order xs = rev (remdups (rev xs))"

definition nth_identifier :: "nat \<Rightarrow> string" where
  "nth_identifier k = zfill 2 (base36_dumps (int k))"

definition number_from :: "nat \<Rightarrow> rat list \<Rightarrow> (rat \<times> string) list" where
  "number_from k vs = map (\<lambda>(i, v). (v, nth_identifier i)) (enumerate k vs)"

definition bpm_table :: "(int \<times> rat) list \<Rightarrow> (rat \<times> string) list" where
  "bpm_table bpms = number_from 1 (distinct_in_order (map snd bpms))"

definition identifier_for :: "(rat \<times> string) list \<Rightarrow> rat \<Rightarrow> string" where
  "identifier_for table v = (case map_of table v of Some i \<Rightarrow> i | None \<Rightarrow> [])"

text \<open>The BPM-reference pushes of a tempo-change list under a table.\<close>

definition bpm_references ::
  "(rat \<times> string) list \<Rightarrow> (int \<times> rat) list \<Rightarrow> (int \<times> string \<times> string) list" where
  "bpm_references table bpms = map (\<lambda>(tick, v). (tick, ''08'', identifier_for table v)) bpms"

definition bpm_definitions ::
  "(rat \<Rightarrow> string) \<Rightarrow> bool \<Rightarrow> (rat \<times> string) list \<Rightarrow> string list" where
  "bpm_definitions repr_float space table = map (\<lambda>(v, i). bpm_line repr_float space i v) table"

section \<open>The sections of the document\<close>

text \<open>
  What the metadata loop appends for one field, and for all of them; the request
  strings of the metadata in order, and the \<open>ticks_per_beat\<close> that the last override among
  them leaves (480 without one).
\<close>

definition request_line :: "string \<Rightarrow> string" where
  "request_line request = ''#REQUEST '' @ [dquote] @ request @ [dquote]"

fun field_lines :: "(rat \<Rightarrow> string) \<Rightarrow> field \<Rightarrow> string list" where
  "field_lines repr_float (StrField name None) = []"
| "field_lines repr_float (NumField name None) = []"
| "field_lines repr_float (RequestsField None) = []"
| "field_lines repr_float (StrField name (Some attr)) =
     [''#'' @ upper name @ '' '' @ [dquote] @ attr @ [dquote]]"
| "field_lines repr_float (NumField name (Some attr)) =
     [''#'' @ upper name @ '' '' @ format_number repr_float attr]"
| "field_lines repr_float (RequestsField (Some requests)) = [] # map request_line requests"

definition metadata_lines :: "(rat \<Rightarrow> string) \<Rightarrow> field list \<Rightarrow> string list" where
  "metadata_lines repr_float fs = concat (map (field_lines repr_float) fs)"

fun field_requests :: "field \<Rightarrow> string list" where
  "field_requests (RequestsField (Some requests)) = requests"
| "field_requests f = []"

definition overrides :: "field list \<Rightarrow> string list" where
  "overrides fs =
     filter (\<lambda>request. startswith request ''ticks_per_beat'') (concat (map field_requests fs))"

definition override_value :: "string \<Rightarrow> int \<Rightarrow> int" where
  "override_value request d =
     (case py_split request of
        a # b # rest \<Rightarrow> (case int_of_str b of Inr n \<Rightarrow> n | Inl e \<Rightarrow> d)
      | _ \<Rightarrow> d)"

definition active_ticks_per_beat :: "field list \<Rightarrow> int" where
  "active_ticks_per_beat fs =
     (if overrides fs = [] then 480 else override_value (last (overrides fs)) 480)"

text \<open>
  The pushes of the notes of one category, of the groups of a category under the
  channels they were given, and of a whole score in the order in which \<open>dumps\<close> makes
  them: BPM references, taps, directionals, slides, guides.
\<close>

definition note_pushes :: "string \<Rightarrow> string \<Rightarrow> Note list \<Rightarrow> (int \<times> string \<times> string) list" where
  "note_pushes category suffix ns =
     map (\<lambda>note. (note_tick note, category @ base36_dumps (note_lane note) @ suffix,
                   note_data note)) ns"

definition group_pushes ::
  "string \<Rightarrow> nat list \<Rightarrow> Note list list \<Rightarrow> (int \<times> string \<times> string) list" where
  "group_pushes category channels groups =
     concat (map (\<lambda>(channel, steps). note_pushes category (base36_dumps (int channel)) steps)
               (zip channels groups))"

text \<open>The channels that the loop over the slides or the guides obtains, group by group.\<close>

fun allocate :: "channel_map \<Rightarrow> Note list list \<Rightarrow> error + nat list" where
  "allocate provider [] = Inr []"
| "allocate provider ([] # rest) = Inl IndexError"
| "allocate provider ((s # ss) # rest) =
     (case generate_channel provider (note_tick s) (note_tick (last (s # ss))) of
        Inl e \<Rightarrow> Inl e
      | Inr (channel, provider') \<Rightarrow>
          (case allocate provider' rest of
             Inl e \<Rightarrow> Inl e
           | Inr channels \<Rightarrow> Inr (channel # channels)))"

text \<open>The interval of a group: \<open>steps[0].tick\<close> to \<open>steps[-1].tick\<close>.\<close>

definition group_interval :: "Note list \<Rightarrow> int \<times> int" where
  "group_interval steps = (note_tick (hd steps), note_tick (last steps))"

definition sorted_groups :: "Note list list \<Rightarrow> Note list list" where
  "sorted_groups groups = sort_key (\<lambda>x. note_tick (hd x)) groups"

definition score_pushes :: "Score \<Rightarrow> nat list \<Rightarrow> nat list \<Rightarrow> (int \<times> string \<times> string) list" where
  "score_pushes score slide_channels guide_channels =
     bpm_references (bpm_table (sort_key fst (score_bpms score))) (sort_key fst (score_bpms score))
     @ note_pushes ''1'' [] (sort_key note_tick (score_taps score))
     @ note_pushes ''5'' [] (sort_key note_tick (score_directionals score))
     @ group_pushes ''3'' slide_channels (sorted_groups (score_slides score))
     @ group_pushes ''9'' guide_channels (sorted_groups (score_guides score))"

text \<open>The tag that a push goes to, when a segment receives it.\<close>

definition push_key :: "BarLength list \<Rightarrow> int \<Rightarrow> int \<times> string \<times> string \<Rightarrow> string option" where
  "push_key segs ticks_per_beat p =
     (case find_bar_length segs (fst p) of
        None \<Rightarrow> None
      | Some bar_length \<Rightarrow>
          Some (format_03 (current_measure ticks_per_beat bar_length (fst p)) @ fst (snd p)))"

section \<open>Reading a tick back from a note line\<close>



section \<open>Example scores\<close>

definition empty_score :: Score where
  "empty_score =
     \<lparr>score_metadata = [], score_taps = [], score_directionals = [], score_slides = [],
      score_guides = [], score_bpms = [], score_bar_lengths = [(0, 4)], score_tils = []\<rparr>"

definition no_repr :: "rat \<Rightarrow> string" where
  "no_repr v = ''?''"

text \<open>1295 tempo changes, all of 120 BPM, and three tempo changes.\<close>

definition same_bpm_score :: Score where
  "same_bpm_score = empty_score\<lparr>score_bpms := replicate 1295 (0, 120)\<rparr>"

definition three_bpm_score :: Score where
  "three_bpm_score = empty_score\<lparr>score_bpms := [(0, 120), (960, 150), (1920, 120)]\<rparr>"

text \<open>
  Buckets: offsets 0, 240 and 360 in a measure of 1920 ticks; a push at tick 1920 of a
  chart in 4/4; two pushes at tick 0 under one tag.
\<close>

definition example_bucket :: note_map where
  "example_bucket =
     \<lparr>raws = [(0, ''11''), (240, ''12''), (360, ''13'')], ticks_per_measure = 1920\<rparr>"

definition second_measure_bucket :: note_map where
  "second_measure_bucket = \<lparr>raws = [(1920, ''11'')], ticks_per_measure = 1920\<rparr>"




text \<open>
  A score with a title, a \<open>requests\<close> field, two tempo changes, three taps and two
  slides on lane 2 from tick 0 to 960 and from tick 480 to 1440; a score whose only
  metadata is one request; a score without bar lengths and one whose first bar length is
  at measure 1, each with a tap at tick 0.
\<close>

definition example_score :: Score where
  "example_score =
     \<lparr>score_metadata =
        [StrField ''title'' (Some ''abc''), StrField ''artist'' None,
         NumField ''waveoffset'' (Some 0), RequestsField (Some [''ticks_per_beat 480''])],
      score_taps =
        [\<lparr>note_tick = 240, note_lane = 2, note_width = 3, note_type = 2\<rparr>,
         \<lparr>note_tick = 0, note_lane = 2, note_width = 1, note_type = 1\<rparr>,
         \<lparr>note_tick = 1920, note_lane = 2, note_width = 1, note_type = 1\<rparr>],
      score_directionals = [],
      score_slides =
        [[\<lparr>note_tick = 480, note_lane = 2, note_width = 1, note_type = 1\<rparr>,
          \<lparr>note_tick = 1440, note_lane = 2, note_width = 1, note_type = 2\<rparr>],
         [\<lparr>note_tick = 0, note_lane = 2, note_width = 1, note_type = 1\<rparr>,
          \<lparr>note_tick = 960, note_lane = 2, note_width = 1, note_type = 2\<rparr>]],
      score_guides = [],
      score_bpms = [(0, 120), (960, 150)],
      score_bar_lengths = [(0, 4)],
      score_tils = []\<rparr>"

definition til_empty :: string where
  "til_empty = ''#TIL00: '' @ [dquote, dquote]"

definition example_doc :: "string list" where
  "example_doc =
     [''comment'', ''#TITLE '' @ [dquote] @ ''abc'' @ [dquote], ''#WAVEOFFSET 0'', [],
      request_line ''ticks_per_beat 480'', [],
      ''#00002:4'', [],
      ''#BPM01:120'', ''#BPM02:150'', [],
      til_empty, ''#HISPEED 00'', ''#MEASUREHS 00'', [],
      ''#00008:0102'', ''#00012:1123000000000000'', ''#00112:11'', ''#000320:1121'',
      ''#000321:00110021'', []]"

definition request_score :: Score where
  "request_score = empty_score\<lparr>score_metadata := [RequestsField (Some [''r''])]\<rparr>"

definition no_bars_score :: Score where
  "no_bars_score =
     empty_score\<lparr>score_bar_lengths := [],
       score_taps := [\<lparr>note_tick = 0, note_lane = 2, note_width = 1, note_type = 1\<rparr>]\<rparr>"

definition late_start_score :: Score where
  "late_start_score =
     empty_score\<lparr>score_bar_lengths := [(1, 4)],
       score_taps := [\<lparr>note_tick = 0, note_lane = 2, note_width = 1, note_type = 1\<rparr>]\<rparr>"






section \<open>Properties of the channel allocator\<close>

lemma channel_provider_init_unfold:
  "channel_provider_init = (0, (0, 0)) # map (\<lambda>key. (key, (0, 0))) [1..<36]"
  by (simp add: channel_provider_init_def upt_conv_Cons)

text \<open>
  C10: on a fresh allocator \<open>generate_channel(0, 0)\<close> returns channel 0 and leaves it
  bound to \<open>(0, 0)\<close>, which is what a never-used channel is bound to; a following
  \<open>generate_channel(0, e)\<close> with \<open>e \<ge> 0\<close> returns channel 0 again and rebinds it to
  \<open>(0, e)\<close>, although \<open>[0, e]\<close> overlaps \<open>[0, 0]\<close>.
\<close>

theorem generate_channel_zero_zero_reused:
  assumes "0 \<le> e"
  shows "generate_channel channel_provider_init 0 0 = Inr (0, channel_provider_init)
       \<and> generate_channel channel_provider_init 0 e
           = Inr (0, AList.update 0 (0, e) channel_provider_init)
       \<and> overlaps (0, 0) (0, e)"
  using assms
  by (simp add: generate_channel_def channel_provider_init_unfold overlaps_def)

theorem generate_channel_zero_zero_reused_witness:
  "(0::int) \<le> 960
   \<and> generate_channel channel_provider_init 0 0 = Inr (0, channel_provider_init)
   \<and> generate_channel channel_provider_init 0 960
        = Inr (0, AList.update 0 (0, 960) channel_provider_init)
   \<and> overlaps (0, 0) (0, 960)"
  using generate_channel_zero_zero_reused [of 960] by simp

lemma find_channel_None_iff:
  "find_channel cm s e = None \<longleftrightarrow> (\<forall>(k, b) \<in> set cm. b \<noteq> (0, 0) \<and> overlaps b (s, e))"
  by (induction cm s e rule: find_channel.induct) (auto simp: overlaps_def)

text \<open>
  What the scan guarantees: it fails exactly when every binding differs from \<open>(0, 0)\<close> and
  overlaps the request; and when the groups come in the order of their first ticks, none
  ends before it starts and none runs from tick 0 to tick 0, two groups that overlap never
  get the same channel.
\<close>

lemma generate_channel_exhausted:
  "generate_channel cm s e = Inl NoMoreChannel
   \<longleftrightarrow> (\<forall>(k, b) \<in> set cm. b \<noteq> (0, 0) \<and> overlaps b (s, e))"
proof -
  have "generate_channel cm s e = Inl NoMoreChannel \<longleftrightarrow> find_channel cm s e = None"
    by (simp add: generate_channel_def split: option.splits)
  then show ?thesis by (simp only: find_channel_None_iff)
qed

lemma find_channel_binding:
  assumes "find_channel cm s e = Some key" "distinct (map fst cm)"
  shows "\<exists>a b. map_of cm key = Some (a, b) \<and> ((a = 0 \<and> b = 0) \<or> e < a \<or> b < s)"
  using assms
proof (induction cm s e rule: find_channel.induct)
  case (1 s e)
  then show ?case by simp
next
  case (2 k a b rest s e)
  show ?case
  proof (cases "(a = 0 \<and> b = 0) \<or> e < a \<or> b < s")
    case True
    with "2.prems" show ?thesis by auto
  next
    case False
    with "2.prems" have f: "find_channel rest s e = Some key" and d: "distinct (map fst rest)"
      by auto
    from "2.IH" [OF False f d] obtain a' b' where
      m: "map_of rest key = Some (a', b')" and c: "(a' = 0 \<and> b' = 0) \<or> e < a' \<or> b' < s"
      by blast
    from m have "key \<in> fst ` set rest" by (metis map_of_eq_None_iff option.distinct(1))
    with "2.prems"(2) have "key \<noteq> k" by auto
    with m c show ?thesis by auto
  qed
qed

lemma generate_channel_Inr:
  assumes "generate_channel cm s e = Inr (c, cm')" "distinct (map fst cm)"
  shows "\<exists>a b. map_of cm c = Some (a, b) \<and> ((a = 0 \<and> b = 0) \<or> e < a \<or> b < s)"
    and "map_of cm' = (map_of cm)(c \<mapsto> (s, e))"
    and "distinct (map fst cm')"
proof -
  from assms(1) have f: "find_channel cm s e = Some c" and u: "cm' = AList.update c (s, e) cm"
    by (auto simp: generate_channel_def split: option.splits)
  from find_channel_binding [OF f assms(2)]
  show "\<exists>a b. map_of cm c = Some (a, b) \<and> ((a = 0 \<and> b = 0) \<or> e < a \<or> b < s)" .
  show "map_of cm' = (map_of cm)(c \<mapsto> (s, e))" by (simp add: u update_conv')
  show "distinct (map fst cm')" using assms(2) by (simp add: u distinct_update)
qed


lemma allocate_Cons:
  assumes "allocate cm (g # rest) = Inr cs"
  shows "\<exists>ch cm1 cs'. g \<noteq> []
       \<and> generate_channel cm (fst (group_interval g)) (snd (group_interval g)) = Inr (ch, cm1)
       \<and> allocate cm1 rest = Inr cs' \<and> cs = ch # cs'"
proof (cases g)
  case Nil
  with assms show ?thesis by simp
next
  case (Cons s ss)
  with assms show ?thesis
    by (auto simp: group_interval_def split: sum.splits prod.splits)
qed

lemma allocate_tracks_channel:
  assumes "allocate cm groups = Inr cs" "distinct (map fst cm)"
    and "map_of cm c = Some (a, b)" "(a, b) \<noteq> (0, 0)"
    and "\<forall>g \<in> set groups. a \<le> fst (group_interval g)"
    and "X < a \<or> X \<le> b"
    and "sorted (map (\<lambda>g. fst (group_interval g)) groups)"
    and "\<forall>g \<in> set groups. fst (group_interval g) \<le> snd (group_interval g)
                          \<and> group_interval g \<noteq> (0, 0)"
    and "j < length groups" "cs ! j = c"
  shows "X < fst (group_interval (groups ! j))"
  using assms
proof (induction groups arbitrary: cm cs a b j)
  case Nil
  then show ?case by simp
next
  case (Cons g rest)
  let ?s = "fst (group_interval g)" and ?e = "snd (group_interval g)"
  from allocate_Cons [OF Cons.prems(1)] obtain ch cm1 cs' where
    gen: "generate_channel cm ?s ?e = Inr (ch, cm1)"
    and al: "allocate cm1 rest = Inr cs'" and cs: "cs = ch # cs'"
    by blast
  note g1 = generate_channel_Inr [OF gen Cons.prems(2)]
  have as: "a \<le> ?s" using Cons.prems(5) by simp
  have se: "?s \<le> ?e" using Cons.prems(8) by simp
  have hit: "X < ?s" if "ch = c"
  proof -
    from g1(1) that Cons.prems(3) have "(a = 0 \<and> b = 0) \<or> ?e < a \<or> b < ?s" by auto
    with Cons.prems(4) as se have "b < ?s" by auto
    with Cons.prems(6) as show ?thesis by auto
  qed
  show ?case
  proof (cases j)
    case 0
    with Cons.prems(10) cs have "ch = c" by simp
    from hit [OF this] 0 show ?thesis by simp
  next
    case (Suc j')
    have j': "j' < length rest" using Cons.prems(9) Suc by simp
    have cj: "cs' ! j' = c" using Cons.prems(10) Suc cs by simp
    have srt: "sorted (map (\<lambda>g. fst (group_interval g)) rest)" using Cons.prems(7) by simp
    have wf: "\<forall>g \<in> set rest. fst (group_interval g) \<le> snd (group_interval g)
                          \<and> group_interval g \<noteq> (0, 0)"
      using Cons.prems(8) by simp
    have later: "\<forall>g' \<in> set rest. ?s \<le> fst (group_interval g')" using Cons.prems(7) by simp
    show ?thesis
    proof (cases "ch = c")
      case True
      have m: "map_of cm1 c = Some (?s, ?e)" using g1(2) True by simp
      have nz: "(?s, ?e) \<noteq> (0, 0)" using Cons.prems(8) by (simp add: prod_eq_iff)
      have "X < ?s \<or> X \<le> ?e" using hit [OF True] by simp
      from Cons.IH [OF al g1(3) m nz later this srt wf j' cj] Suc show ?thesis by simp
    next
      case False
      have m: "map_of cm1 c = Some (a, b)" using g1(2) False Cons.prems(3) by simp
      have fut: "\<forall>g \<in> set rest. a \<le> fst (group_interval g)" using Cons.prems(5) by simp
      from Cons.IH [OF al g1(3) m Cons.prems(4) fut Cons.prems(6) srt wf j' cj] Suc
      show ?thesis by simp
    qed
  qed
qed

lemma allocate_same_channel:
  assumes "allocate cm groups = Inr cs" "distinct (map fst cm)"
    and "sorted (map (\<lambda>g. fst (group_interval g)) groups)"
    and "\<forall>g \<in> set groups. fst (group_interval g) \<le> snd (group_interval g)
                          \<and> group_interval g \<noteq> (0, 0)"
    and "i < j" "j < length groups" "cs ! i = cs ! j"
  shows "snd (group_interval (groups ! i)) < fst (group_interval (groups ! j))"
  using assms
proof (induction groups arbitrary: cm cs i j)
  case Nil
  then show ?case by simp
next
  case (Cons g rest)
  let ?s = "fst (group_interval g)" and ?e = "snd (group_interval g)"
  from allocate_Cons [OF Cons.prems(1)] obtain ch cm1 cs' where
    gen: "generate_channel cm ?s ?e = Inr (ch, cm1)"
    and al: "allocate cm1 rest = Inr cs'" and cs: "cs = ch # cs'"
    by blast
  note g1 = generate_channel_Inr [OF gen Cons.prems(2)]
  obtain j' where j: "j = Suc j'" using Cons.prems(5) by (cases j) auto
  have j': "j' < length rest" using Cons.prems(6) j by simp
  have srt: "sorted (map (\<lambda>g. fst (group_interval g)) rest)" using Cons.prems(3) by simp
  have wf: "\<forall>g \<in> set rest. fst (group_interval g) \<le> snd (group_interval g)
                        \<and> group_interval g \<noteq> (0, 0)"
    using Cons.prems(4) by simp
  show ?case
  proof (cases i)
    case 0
    have cj: "cs' ! j' = ch" using Cons.prems(7) 0 j cs by simp
    have m: "map_of cm1 ch = Some (?s, ?e)" using g1(2) by simp
    have nz: "(?s, ?e) \<noteq> (0, 0)" using Cons.prems(4) by (simp add: prod_eq_iff)
    have later: "\<forall>g' \<in> set rest. ?s \<le> fst (group_interval g')" using Cons.prems(3) by simp
    have "?e < ?s \<or> ?e \<le> ?e" by simp
    from allocate_tracks_channel [OF al g1(3) m nz later this srt wf j' cj] 0 j
    show ?thesis by simp
  next
    case (Suc i')
    have "i' < j'" using Cons.prems(5) Suc j by simp
    moreover have "cs' ! i' = cs' ! j'" using Cons.prems(7) Suc j cs by simp
    ultimately show ?thesis
      using Cons.IH [OF al g1(3) srt wf _ j'] Suc j by simp
  qed
qed

lemma allocate_separates:
  assumes "allocate channel_provider_init groups = Inr cs"
    and "sorted (map (\<lambda>g. fst (group_interval g)) groups)"
    and "\<forall>g \<in> set groups. fst (group_interval g) \<le> snd (group_interval g)
                          \<and> group_interval g \<noteq> (0, 0)"
    and "i < j" "j < length groups"
    and "overlaps (group_interval (groups ! i)) (group_interval (groups ! j))"
  shows "cs ! i \<noteq> cs ! j"
proof
  assume "cs ! i = cs ! j"
  moreover have "distinct (map fst channel_provider_init)"
    by (simp add: channel_provider_init_def comp_def)
  ultimately have "snd (group_interval (groups ! i)) < fst (group_interval (groups ! j))"
    using assms(1-5) by (intro allocate_same_channel [of channel_provider_init groups cs i j]) auto
  with assms(6) show False by (simp add: overlaps_def)
qed

text \<open>
  C2: the scan takes the first channel whose binding is \<open>(0, 0)\<close> or does not overlap the
  request, and \<open>(0, 0)\<close> is also the binding that a group from tick 0 to tick 0 leaves.
  Two slides on lane 2, one with its only step at tick 0 and one from tick 0 to tick 960,
  overlap at tick 0 and yet both get channel 0: all their steps are recorded under the
  one tag \<open>000320\<close>.
\<close>

theorem overlapping_groups_share_channel:
  "push_groups (bar_lengths_in_ticks 480 [(0, 4)]) 480 ''3''
     [[\<lparr>note_tick = 0, note_lane = 2, note_width = 1, note_type = 1\<rparr>],
      [\<lparr>note_tick = 0, note_lane = 2, note_width = 1, note_type = 1\<rparr>,
       \<lparr>note_tick = 960, note_lane = 2, note_width = 1, note_type = 2\<rparr>]]
     channel_provider_init []
   = Inr [(''000320'',
           \<lparr>raws = [(0, ''11''), (0, ''11''), (960, ''21'')], ticks_per_measure = 1920\<rparr>)]
   \<and> overlaps (0, 0) (0, 960)"
  by code_simp

section \<open>Which exceptions a stage can raise\<close>

lemma push_raw_error: "push_raw segs tpb nm tick info data = Inl e \<Longrightarrow> e = ZeroDivisionError"
  by (auto simp: push_raw_def Let_def split: option.splits if_splits)

lemma dump_bpms_error:
  "dump_bpms rf space segs tpb bpms ids lines nm = Inl e \<Longrightarrow> e = ZeroDivisionError"
proof (induction bpms arbitrary: ids lines nm)
  case Nil
  then show ?case by simp
next
  case (Cons b bpms)
  obtain tick v where b: "b = (tick, v)" by (cases b)
  from Cons.prems show ?case
    unfolding b
    by (auto simp: Let_def split: option.splits sum.splits dest: push_raw_error Cons.IH)
qed

lemma til_line_error: "til_line rf tpb tils = Inl e \<Longrightarrow> e = ZeroDivisionError"
  by (auto simp: til_line_def split: if_splits)

lemma push_notes_error:
  "push_notes segs tpb cat suffix ns nm = Inl e \<Longrightarrow> e = ZeroDivisionError"
  by (induction ns arbitrary: nm) (auto split: sum.splits dest: push_raw_error)

lemma generate_channel_error: "generate_channel cm s e = Inl err \<Longrightarrow> err = NoMoreChannel"
  by (auto simp: generate_channel_def split: option.splits)

lemma push_groups_error:
  "push_groups segs tpb cat groups cm nm = Inl e \<Longrightarrow>
   e = NoMoreChannel \<or> e = IndexError \<or> e = ZeroDivisionError"
proof (induction groups arbitrary: cm nm)
  case Nil
  then show ?case by simp
next
  case (Cons g groups)
  show ?case
  proof (cases g)
    case Nil
    with Cons.prems show ?thesis by simp
  next
    case (Cons s ss)
    with Cons.prems Cons.IH show ?thesis
      by (auto simp del: push_notes.simps split: sum.splits prod.splits
          dest: push_notes_error generate_channel_error)
  qed
qed

lemma render_values_error:
  "render_values m = Inl e \<Longrightarrow> e = ZeroDivisionError \<or> e = ValueError"
  by (auto simp: render_values_def split: if_splits)

lemma render_line_error:
  "render_line space tag m = Inl e \<Longrightarrow> e = ZeroDivisionError \<or> e = ValueError"
  by (auto simp: render_line_def split: sum.splits dest: render_values_error)

lemma render_all_error:
  "render_all space nm = Inl e \<Longrightarrow> e = ZeroDivisionError \<or> e = ValueError"
  by (induction nm arbitrary: e) (auto split: sum.splits dest: render_line_error)

lemma dumps_score_AttributeError_iff:
  assumes "[] \<notin> set (score_slides score)" "[] \<notin> set (score_guides score)"
  shows "dumps_score rf space score tpb lines0 = Inl AttributeError
         \<longleftrightarrow> 36 ^ 2 - 1 \<le> length (score_bpms score)"
proof (cases "(36::nat) ^ 2 - 1 \<le> length (score_bpms score)")
  case True
  with assms show ?thesis by (simp add: dumps_score_def Let_def)
next
  case False
  have "dumps_score rf space score tpb lines0 \<noteq> Inl AttributeError"
    using assms False
    by (auto simp: dumps_score_def Let_def split: sum.splits
        dest!: dump_bpms_error til_line_error push_notes_error push_groups_error render_all_error)
  with False show ?thesis by simp
qed

text \<open>
  C5 (as the code has it): the guard compares the number of tempo-change entries, not of
  distinct values, with \<open>36\<^sup>2 - 1\<close>. When the metadata loop and the sort keys raise
  nothing, \<open>dumps\<close> fails at the guard exactly when there are at least 1295 entries; no
  other stage raises the guard's exception.
\<close>

theorem bpm_guard_counts_entries:
  assumes "dump_metadata rf (score_metadata score) [comment] 480 = Inr (lines, tpb)"
    and "[] \<notin> set (score_slides score)" and "[] \<notin> set (score_guides score)"
  shows "dumps rf score comment space = Inl AttributeError
         \<longleftrightarrow> 36 ^ 2 - 1 \<le> length (score_bpms score)"
proof -
  have "dumps rf score comment space = Inl AttributeError
        \<longleftrightarrow> dumps_score rf space score tpb (lines @ [[]]) = Inl AttributeError"
    using assms(1) by (simp add: dumps_def dumps_lines_def split: sum.splits)
  then show ?thesis
    using dumps_score_AttributeError_iff [OF assms(2,3)] by simp
qed

theorem bpm_guard_counts_entries_witness:
  "dump_metadata no_repr (score_metadata three_bpm_score) [''c''] 480 = Inr ([''c''], 480)
   \<and> [] \<notin> set (score_slides three_bpm_score)
   \<and> [] \<notin> set (score_guides three_bpm_score)
   \<and> length (score_bpms three_bpm_score) = 3
   \<and> dumps no_repr three_bpm_score ''c'' False \<noteq> Inl AttributeError"
proof -
  have m: "dump_metadata no_repr (score_metadata three_bpm_score) [''c''] 480 = Inr ([''c''], 480)"
    by (simp add: three_bpm_score_def empty_score_def)
  have s: "[] \<notin> set (score_slides three_bpm_score)"
    by (simp add: three_bpm_score_def empty_score_def)
  have g: "[] \<notin> set (score_guides three_bpm_score)"
    by (simp add: three_bpm_score_def empty_score_def)
  have n: "length (score_bpms three_bpm_score) = 3"
    by (simp add: three_bpm_score_def empty_score_def)
  show ?thesis
    using bpm_guard_counts_entries [OF m s g, of False] m s g n by simp
qed

text \<open>
  C5 as stated fails: 1295 tempo changes of one and the same value make one distinct
  value, and \<open>dumps\<close> fails at the guard.
\<close>

theorem bpm_guard_same_value_counterexample:
  "dumps no_repr same_bpm_score ''c'' False = Inl AttributeError
   \<and> card (snd ` set (score_bpms same_bpm_score)) = 1"
  by (simp add: dumps_def dumps_lines_def dumps_score_def Let_def same_bpm_score_def
      empty_score_def)

section \<open>Rendering: resolution and cells\<close>

lemma fold_gcd_Gcd:
  "0 \<le> t \<Longrightarrow> fold (\<lambda>raw g. gcd (fst raw) g) xs (t::int) = Gcd (insert t (fst ` set xs))"
proof (induction xs arbitrary: t)
  case Nil
  then show ?case by simp
next
  case (Cons x xs)
  have "Gcd (insert (gcd (fst x) t) (fst ` set xs)) = Gcd (insert t (insert (fst x) (fst ` set xs)))"
    by (simp add: gcd.assoc gcd.commute)
  with Cons.IH [of "gcd (fst x) t"] show ?case by simp
qed

lemma resolution_Gcd:
  "0 \<le> ticks_per_measure m \<Longrightarrow>
   resolution m = Gcd (insert (ticks_per_measure m) (fst ` set (raws m)))"
  by (simp add: resolution_def fold_gcd_Gcd)

lemma fold_gcd_dvd_init: "fold (\<lambda>raw g. gcd (fst raw) g) xs (t::int) dvd t"
proof (induction xs arbitrary: t)
  case Nil
  then show ?case by simp
next
  case (Cons x xs)
  have "fold (\<lambda>raw g. gcd (fst raw) g) xs (gcd (fst x) t) dvd gcd (fst x) t"
    by (rule Cons.IH)
  then show ?case by (simp add: dvd_trans)
qed

lemma fold_gcd_dvd_elem:
  "x \<in> set xs \<Longrightarrow> fold (\<lambda>raw g. gcd (fst raw) g) xs (t::int) dvd fst x"
proof (induction xs arbitrary: t)
  case Nil
  then show ?case by simp
next
  case (Cons y ys)
  show ?case
  proof (cases "x = y")
    case True
    have "fold (\<lambda>raw g. gcd (fst raw) g) ys (gcd (fst y) t) dvd gcd (fst y) t"
      by (rule fold_gcd_dvd_init)
    with True show ?thesis by (simp add: dvd_trans)
  next
    case False
    with Cons.prems have "x \<in> set ys" by simp
    from Cons.IH [OF this] show ?thesis by simp
  qed
qed

lemma resolution_dvd_tpm: "resolution m dvd ticks_per_measure m"
  by (simp add: resolution_def fold_gcd_dvd_init)

lemma resolution_dvd_raw: "raw \<in> set (raws m) \<Longrightarrow> resolution m dvd fst raw"
  by (simp add: resolution_def fold_gcd_dvd_elem)

lemma resolution_pos: "0 < ticks_per_measure m \<Longrightarrow> 0 < resolution m"
proof -
  assume pos: "0 < ticks_per_measure m"
  then have "resolution m \<noteq> 0" using resolution_dvd_tpm [of m] by auto
  moreover have "0 \<le> resolution m" using pos by (simp add: resolution_Gcd)
  ultimately show ?thesis by simp
qed

lemma length_py_range:
  assumes "0 < step" "0 \<le> stop" "step dvd stop"
  shows "length (py_range stop step) = nat (stop div step)"
proof -
  from assms obtain k where k: "stop = k * step" by (auto simp: dvd_def)
  have "(step - 1 + k * step) div step = k + (step - 1) div step"
    using assms(1) by (intro div_mult_self1) simp
  moreover have "(step - 1) div step = 0" using assms(1) by (simp add: div_pos_pos_trivial)
  ultimately have "(step - 1 + k * step) div step = k" by simp
  moreover have "k * step + step - 1 = step - 1 + k * step" by simp
  ultimately have "(k * step + step - 1) div step = k" by (simp only:)
  with k assms show ?thesis by (simp add: py_range_def)
qed

lemma nth_py_range: "i < length (py_range stop step) \<Longrightarrow> py_range stop step ! i = int i * step"
  by (simp add: py_range_def)

lemma fold_upd_None:
  "fold (\<lambda>raw d. d(f raw \<mapsto> snd raw)) xs d0 k = None
   \<longleftrightarrow> d0 k = None \<and> (\<forall>raw \<in> set xs. f raw \<noteq> k)"
  by (induction xs arbitrary: d0) auto

lemma fold_upd_notin:
  "\<forall>raw \<in> set xs. f raw \<noteq> k \<Longrightarrow> fold (\<lambda>raw d. d(f raw \<mapsto> snd raw)) xs d0 k = d0 k"
  by (induction xs arbitrary: d0) auto

lemma fold_upd_last:
  assumes "\<forall>raw \<in> set post. f raw \<noteq> f x"
  shows "fold (\<lambda>raw d. d(f raw \<mapsto> snd raw)) (pre @ x # post) d0 (f x) = Some (snd x)"
  using assms by (simp add: fold_upd_notin)

lemma render_data_None:
  "render_data m k = None \<longleftrightarrow> (\<forall>raw \<in> set (raws m). fst raw mod ticks_per_measure m \<noteq> k)"
  by (simp add: render_data_def fold_upd_None)

lemma render_data_last:
  assumes "raws m = pre @ (off, s) # post"
    and "\<forall>raw \<in> set post. fst raw mod ticks_per_measure m \<noteq> off mod ticks_per_measure m"
  shows "render_data m (off mod ticks_per_measure m) = Some s"
  using fold_upd_last [of post "\<lambda>raw. fst raw mod ticks_per_measure m" "(off, s)" pre Map.empty] assms
  by (simp add: render_data_def)

lemma render_data_range:
  "render_data m k = Some s \<Longrightarrow> \<exists>raw \<in> set (raws m). fst raw mod ticks_per_measure m = k \<and> snd raw = s"
proof -
  have "fold (\<lambda>raw d. d(f raw \<mapsto> snd raw)) xs d0 k = Some s \<Longrightarrow>
        d0 k = Some s \<or> (\<exists>raw \<in> set xs. f raw = k \<and> snd raw = s)" for f xs and d0 :: "int \<rightharpoonup> string"
    by (induction xs arbitrary: d0) (fastforce split: if_splits)+
  from this [of "\<lambda>raw. fst raw mod ticks_per_measure m" "raws m" Map.empty]
  show "render_data m k = Some s \<Longrightarrow> ?thesis" by (simp add: render_data_def)
qed

lemma render_values_pos:
  "0 < ticks_per_measure m \<Longrightarrow>
   render_values m = Inr (map (cell (render_data m)) (py_range (ticks_per_measure m) (resolution m)))"
  using resolution_pos [of m] by (simp add: render_values_def)


lemma render_cell_index:
  assumes pos: "0 < ticks_per_measure m" and mem: "(off, s) \<in> set (raws m)"
  shows "nat ((off mod ticks_per_measure m) div resolution m)
           < length (py_range (ticks_per_measure m) (resolution m))
       \<and> py_range (ticks_per_measure m) (resolution m)
             ! nat ((off mod ticks_per_measure m) div resolution m)
           = off mod ticks_per_measure m"
proof -
  let ?t = "ticks_per_measure m" and ?r = "resolution m"
  let ?k = "off mod ?t"
  have rpos: "0 < ?r" using pos by (rule resolution_pos)
  have rt: "?r dvd ?t" by (rule resolution_dvd_tpm)
  have "?r dvd off" using resolution_dvd_raw [OF mem] by simp
  with rt have rk: "?r dvd ?k" by (simp add: dvd_mod)
  have k0: "0 \<le> ?k" and kt: "?k < ?t" using pos by simp_all
  have len: "length (py_range ?t ?r) = nat (?t div ?r)"
    using rpos pos rt by (simp add: length_py_range)
  from rk obtain a where a: "?k = ?r * a" by (auto simp: dvd_def)
  from rt obtain b where b: "?t = ?r * b" by (auto simp: dvd_def)
  have "?r * a < ?r * b" using kt a b by simp
  then have ab: "a < b" using rpos by (simp add: mult_less_cancel_left_pos)
  have a0: "0 \<le> a" using k0 a rpos by (simp add: zero_le_mult_iff)
  have ka: "?k div ?r = a" using a rpos by simp
  have tb: "?t div ?r = b" using b rpos by simp
  have idx: "nat (?k div ?r) < length (py_range ?t ?r)"
    using ab a0 by (simp add: len ka tb)
  have "py_range ?t ?r ! nat (?k div ?r) = int (nat (?k div ?r)) * ?r"
    using idx by (rule nth_py_range)
  also have "\<dots> = ?k" using a0 a by (simp add: ka)
  finally show ?thesis using idx by simp
qed

text \<open>
  C4 (as the code has it): for a bucket with a positive \<open>ticks_per_measure\<close> whose symbols
  have two characters, the resolution is the gcd of \<open>ticks_per_measure\<close> and all recorded
  offsets and divides \<open>ticks_per_measure\<close>; the line is \<open>#tag:\<close> followed by exactly
  \<open>ticks_per_measure / resolution\<close> cells of two characters; a cell that no recorded
  offset reaches is \<open>00\<close>; and a recorded symbol, unless a later raw has the same offset
  modulo \<open>ticks_per_measure\<close>, stands at the cell index
  \<open>(offset mod ticks_per_measure) / resolution\<close>.
\<close>

theorem render_values_cells:
  assumes pos: "0 < ticks_per_measure m"
    and two: "\<forall>raw \<in> set (raws m). length (snd raw) = 2"
  shows "resolution m = Gcd (insert (ticks_per_measure m) (fst ` set (raws m)))
       \<and> resolution m dvd ticks_per_measure m
       \<and> (\<exists>cells.
             render_values m = Inr cells
           \<and> (\<forall>space tag. render_line space tag m
                  = Inr (''#'' @ tag @ '':'' @ sep space @ concat cells))
           \<and> length cells = nat (ticks_per_measure m div resolution m)
           \<and> (\<forall>c \<in> set cells. length c = 2)
           \<and> (\<forall>i < length cells.
                  (\<forall>raw \<in> set (raws m).
                      fst raw mod ticks_per_measure m \<noteq> int i * resolution m)
                  \<longrightarrow> cells ! i = ''00'')
           \<and> (\<forall>pre off s post.
                  raws m = pre @ (off, s) # post
                  \<and> (\<forall>raw \<in> set post.
                        fst raw mod ticks_per_measure m \<noteq> off mod ticks_per_measure m)
                  \<longrightarrow> nat ((off mod ticks_per_measure m) div resolution m) < length cells
                    \<and> cells ! nat ((off mod ticks_per_measure m) div resolution m) = s))"
proof -
  let ?t = "ticks_per_measure m" and ?r = "resolution m"
  let ?rng = "py_range ?t ?r"
  let ?cells = "map (cell (render_data m)) ?rng"
  have rpos: "0 < ?r" using pos by (rule resolution_pos)
  have rt: "?r dvd ?t" by (rule resolution_dvd_tpm)
  have g: "?r = Gcd (insert ?t (fst ` set (raws m)))"
    using pos by (simp add: resolution_Gcd)
  have rv: "render_values m = Inr ?cells" using pos by (rule render_values_pos)
  have rl: "\<forall>space tag. render_line space tag m
              = Inr (''#'' @ tag @ '':'' @ sep space @ concat ?cells)"
    by (simp add: render_line_def rv)
  have len: "length ?cells = nat (?t div ?r)"
    using rpos pos rt by (simp add: length_py_range)
  have c2: "length (cell (render_data m) k) = 2" for k
  proof (cases "render_data m k")
    case None
    then show ?thesis by (simp add: cell_def)
  next
    case (Some s)
    from render_data_range [OF this] two have "length s = 2" by auto
    with Some show ?thesis by (auto simp: cell_def)
  qed
  have all2: "\<forall>c \<in> set ?cells. length c = 2" using c2 by auto
  have empty: "\<forall>i < length ?cells.
      (\<forall>raw \<in> set (raws m). fst raw mod ?t \<noteq> int i * ?r) \<longrightarrow> ?cells ! i = ''00''"
  proof (intro allI impI)
    fix i assume i: "i < length ?cells"
      and free: "\<forall>raw \<in> set (raws m). fst raw mod ?t \<noteq> int i * ?r"
    from i have "?rng ! i = int i * ?r" by (simp add: nth_py_range)
    moreover from free have "render_data m (int i * ?r) = None" by (simp add: render_data_None)
    ultimately show "?cells ! i = ''00''" using i by (simp add: cell_def)
  qed
  have placed: "\<forall>pre off s post.
      raws m = pre @ (off, s) # post
      \<and> (\<forall>raw \<in> set post. fst raw mod ?t \<noteq> off mod ?t)
      \<longrightarrow> nat ((off mod ?t) div ?r) < length ?cells
        \<and> ?cells ! nat ((off mod ?t) div ?r) = s"
  proof (intro allI impI)
    fix pre off s post
    assume h: "raws m = pre @ (off, s) # post
      \<and> (\<forall>raw \<in> set post. fst raw mod ?t \<noteq> off mod ?t)"
    then have mem: "(off, s) \<in> set (raws m)" by simp
    from render_cell_index [OF pos mem]
    have idx: "nat ((off mod ?t) div ?r) < length ?rng"
      and at: "?rng ! nat ((off mod ?t) div ?r) = off mod ?t" by simp_all
    from h have d: "render_data m (off mod ?t) = Some s" by (intro render_data_last) auto
    from two mem have "s \<noteq> []" by auto
    with d have "cell (render_data m) (off mod ?t) = s" by (simp add: cell_def)
    with idx at show "nat ((off mod ?t) div ?r) < length ?cells
        \<and> ?cells ! nat ((off mod ?t) div ?r) = s" by simp
  qed
  show ?thesis
    using g rt rv rl len all2 empty placed by blast
qed

theorem render_values_cells_witness:
  "0 < ticks_per_measure example_bucket
   \<and> list_all (\<lambda>raw. length (snd raw) = 2) (raws example_bucket)
   \<and> resolution example_bucket = 120
   \<and> resolution example_bucket dvd ticks_per_measure example_bucket
   \<and> (\<exists>cells. render_values example_bucket = Inr cells
         \<and> length cells = 16 \<and> (\<forall>c \<in> set cells. length c = 2))"
proof -
  have h1: "0 < ticks_per_measure example_bucket" by (simp add: example_bucket_def)
  have h2: "\<forall>raw \<in> set (raws example_bucket). length (snd raw) = 2"
    by (simp add: example_bucket_def)
  have r: "resolution example_bucket = 120" by code_simp
  from render_values_cells [OF h1 h2] obtain cells where
    "resolution example_bucket dvd ticks_per_measure example_bucket"
    "render_values example_bucket = Inr cells"
    "length cells = nat (ticks_per_measure example_bucket div resolution example_bucket)"
    "\<forall>c \<in> set cells. length c = 2"
    by blast
  then show ?thesis using h1 h2 r by (auto simp: example_bucket_def list_all_iff)
qed

text \<open>
  C4 as stated fails: the push at tick 1920 of a chart in 4/4 records the offset 1920 in
  the bucket of measure 1. The resolution is 1920, so \<open>offset / resolution\<close> is 1, but the
  line has one cell and the symbol stands at index 0.
\<close>

theorem symbol_cell_index_counterexample:
  "push_raw (bar_lengths_in_ticks 480 [(0, 4)]) 480 [] 1920 ''12'' ''11''
     = Inr [(''00112'', second_measure_bucket)]
   \<and> raws second_measure_bucket = [(1920, ''11'')]
   \<and> resolution second_measure_bucket = 1920
   \<and> 1920 div resolution second_measure_bucket = 1
   \<and> render_values second_measure_bucket = Inr [''11'']"
  by code_simp

section \<open>Pushes: what a bucket records\<close>







lemma push_raw_dropped:
  "find_bar_length segs tick = None \<Longrightarrow> push_raw segs tpb nm tick info data = Inr nm"
  by (simp add: push_raw_def)










section \<open>The BPM table\<close>

lemma distinct_in_order_Cons:
  "distinct_in_order (x # xs) = x # filter (\<lambda>y. y \<noteq> x) (distinct_in_order xs)"
proof -
  have "remdups (ys @ [x]) = remdups (filter (\<lambda>y. y \<noteq> x) ys) @ [x]" for ys
    by (induction ys) auto
  from this [of "rev xs"] show ?thesis
    by (simp add: distinct_in_order_def remdups_filter rev_filter)
qed

lemma distinct_in_order_Nil: "distinct_in_order [] = []"
  by (simp add: distinct_in_order_def)

lemma set_distinct_in_order: "set (distinct_in_order xs) = set xs"
  by (simp add: distinct_in_order_def)

lemma number_from_Nil: "number_from k [] = []"
  by (simp add: number_from_def)

lemma number_from_Cons: "number_from k (v # vs) = (v, nth_identifier k) # number_from (Suc k) vs"
  by (simp add: number_from_def)

lemma fst_set_number_from: "fst ` set (number_from k vs) = set vs"
  by (induction vs arbitrary: k) (auto simp: number_from_Nil number_from_Cons)

lemma dump_bpms_general:
  "dump_bpms rf space segs tpb bpms ids lines nm =
     (let table = ids @ number_from (Suc (length ids))
                         (filter (\<lambda>v. v \<notin> fst ` set ids) (distinct_in_order (map snd bpms)))
      in case push_all segs tpb (bpm_references table bpms) nm of
           Inl e \<Rightarrow> Inl e
         | Inr nm' \<Rightarrow>
             Inr (table, lines @ bpm_definitions rf space (drop (length ids) table), nm'))"
proof (induction bpms arbitrary: ids lines nm)
  case Nil
  then show ?case
    by (simp add: distinct_in_order_Nil number_from_Nil bpm_references_def bpm_definitions_def)
next
  case (Cons b bpms)
  obtain tick v where b: "b = (tick, v)" by (cases b)
  let ?rest = "distinct_in_order (map snd bpms)"
  have vs: "map snd (b # bpms) = v # map snd bpms" by (simp add: b)
  show ?case
  proof (cases "map_of ids v")
    case None
    then have notin: "v \<notin> fst ` set ids" by (simp add: map_of_eq_None_iff)
    let ?ids1 = "ids @ [(v, nth_identifier (Suc (length ids)))]"
    have f: "filter (\<lambda>w. w \<notin> fst ` set ids) (distinct_in_order (v # map snd bpms))
             = v # filter (\<lambda>w. w \<notin> fst ` set ?ids1) ?rest"
      using notin by (auto simp: distinct_in_order_Cons intro: filter_cong)
    let ?table = "?ids1 @ number_from (Suc (length ?ids1)) (filter (\<lambda>w. w \<notin> fst ` set ?ids1) ?rest)"
    have t: "ids @ number_from (Suc (length ids))
               (filter (\<lambda>w. w \<notin> fst ` set ids) (distinct_in_order (v # map snd bpms)))
             = ?table"
      unfolding f by (simp add: number_from_Cons)
    have look: "identifier_for ?table v = nth_identifier (Suc (length ids))"
      using None by (simp add: identifier_for_def map_add_def)
    have ident: "zfill 2 (base36_dumps (int (length ids) + 1)) = nth_identifier (Suc (length ids))"
      by (simp add: nth_identifier_def add.commute)
    have d: "drop (length ids) ?table
             = (v, nth_identifier (Suc (length ids))) # drop (length ?ids1) ?table"
      by simp
    have step: "dump_bpms rf space segs tpb (b # bpms) ids lines nm =
      (case push_raw segs tpb nm tick ''08'' (nth_identifier (Suc (length ids))) of
         Inl e \<Rightarrow> Inl e
       | Inr nm' \<Rightarrow> dump_bpms rf space segs tpb bpms ?ids1
            (lines @ [bpm_line rf space (nth_identifier (Suc (length ids))) v]) nm')"
      unfolding b by (simp add: None ident Let_def)
    have refs: "bpm_references ?table (b # bpms)
                = (tick, ''08'', nth_identifier (Suc (length ids))) # bpm_references ?table bpms"
      unfolding b bpm_references_def using look by simp
    have defs: "lines @ bpm_definitions rf space (drop (length ids) ?table)
                = (lines @ [bpm_line rf space (nth_identifier (Suc (length ids))) v])
                  @ bpm_definitions rf space (drop (length ?ids1) ?table)"
      by (subst d) (simp add: bpm_definitions_def)
    show ?thesis
      unfolding vs t Let_def step refs defs
      by (simp add: Cons.IH [of ?ids1] Let_def del: append_assoc split: sum.splits)
  next
    case (Some known)
    then have mem: "v \<in> fst ` set ids" by (metis map_of_eq_None_iff option.distinct(1))
    have f: "filter (\<lambda>w. w \<notin> fst ` set ids) (distinct_in_order (v # map snd bpms))
             = filter (\<lambda>w. w \<notin> fst ` set ids) ?rest"
      using mem by (auto simp: distinct_in_order_Cons intro: filter_cong)
    let ?table = "ids @ number_from (Suc (length ids)) (filter (\<lambda>w. w \<notin> fst ` set ids) ?rest)"
    have look: "identifier_for ?table v = known"
      using Some by (simp add: identifier_for_def map_add_def)
    have step: "dump_bpms rf space segs tpb (b # bpms) ids lines nm =
      (case push_raw segs tpb nm tick ''08'' known of
         Inl e \<Rightarrow> Inl e
       | Inr nm' \<Rightarrow> dump_bpms rf space segs tpb bpms ids lines nm')"
      unfolding b by (simp add: Some Let_def)
    have refs: "bpm_references ?table (b # bpms) = (tick, ''08'', known) # bpm_references ?table bpms"
      unfolding b bpm_references_def using look by simp
    show ?thesis
      unfolding vs f Let_def step refs
      by (simp add: Cons.IH [of ids] Let_def split: sum.splits)
  qed
qed


lemma base36_one_digit: "0 < k \<Longrightarrow> k < 36 \<Longrightarrow> length (base36_dumps_nat k) = 1"
  by (simp add: base36_dumps_nat_def base36_loop.simps [of k] base36_loop.simps [of 0])

lemma base36_two_digits:
  assumes "36 \<le> k" "k < 1296"
  shows "length (base36_dumps_nat k) = 2"
proof -
  have d: "k div 36 \<noteq> 0" using assms(1) by simp
  have e: "k div 36 div 36 = 0" using assms(2) by simp
  show ?thesis
    using assms d e
    by (simp add: base36_dumps_nat_def base36_loop.simps [of k]
        base36_loop.simps [of "k div 36"] base36_loop.simps [of 0])
qed

lemma length_zfill: "length (zfill w s) = max w (length s)"
  by (auto simp: zfill_def split: list.splits)

lemma length_nth_identifier:
  assumes "0 < k" "k < 1296"
  shows "length (nth_identifier k) = 2"
proof (cases "k < 36")
  case True
  with assms(1) have "length (base36_dumps_nat k) = 1" by (rule base36_one_digit)
  then show ?thesis by (simp add: nth_identifier_def base36_dumps_def length_zfill)
next
  case False
  with assms(2) have "length (base36_dumps_nat k) = 2" by (intro base36_two_digits) auto
  then show ?thesis by (simp add: nth_identifier_def base36_dumps_def length_zfill)
qed

lemma nth_number_from:
  "i < length vs \<Longrightarrow> number_from k vs ! i = (vs ! i, nth_identifier (k + i))"
  by (simp add: number_from_def nth_enumerate_eq)

lemma length_number_from: "length (number_from k vs) = length vs"
  by (simp add: number_from_def)

lemma map_fst_number_from: "map fst (number_from k vs) = vs"
  by (induction vs arbitrary: k) (simp_all add: number_from_Nil number_from_Cons)

lemma length_distinct_in_order: "length (distinct_in_order xs) \<le> length xs"
  by (simp add: distinct_in_order_def) (metis length_remdups_leq length_rev)

text \<open>
  C6: starting from the empty identifier dict, the loop over the tempo changes gives the
  \<open>k\<close>-th distinct value, in order of first occurrence, the identifier of \<open>k\<close> in base
  36 filled to two characters (\<open>01\<close>, \<open>02\<close>, ...; two characters for fewer than 1295
  entries), appends one BPM definition per distinct value, and pushes for every entry a
  reference with the identifier of its value. Two tempo changes with one value give one
  definition and two references with \<open>01\<close>.
\<close>

theorem bpm_identifiers_first_occurrence:
  "dump_bpms rf space segs tpb bpms [] lines [] =
     (case push_all segs tpb (bpm_references (bpm_table bpms) bpms) [] of
        Inl e \<Rightarrow> Inl e
      | Inr nm \<Rightarrow> Inr (bpm_table bpms, lines @ bpm_definitions rf space (bpm_table bpms), nm))
   \<and> map fst (bpm_table bpms) = distinct_in_order (map snd bpms)
   \<and> (\<forall>k < length (bpm_table bpms). snd (bpm_table bpms ! k) = nth_identifier (Suc k))
   \<and> nth_identifier 1 = ''01'' \<and> nth_identifier 2 = ''02''
   \<and> (length bpms < 36 ^ 2 - 1 \<longrightarrow> (\<forall>e \<in> set (bpm_table bpms). length (snd e) = 2))
   \<and> (\<forall>t1 t2 v.
         bpm_table [(t1, v), (t2, v)] = [(v, ''01'')]
       \<and> bpm_definitions rf space (bpm_table [(t1, v), (t2, v)]) = [bpm_line rf space ''01'' v]
       \<and> bpm_references (bpm_table [(t1, v), (t2, v)]) [(t1, v), (t2, v)]
           = [(t1, ''08'', ''01''), (t2, ''08'', ''01'')])"
proof -
  have i1: "nth_identifier 1 = ''01''" by code_simp
  have i2: "nth_identifier 2 = ''02''" by code_simp
  have run: "dump_bpms rf space segs tpb bpms [] lines [] =
     (case push_all segs tpb (bpm_references (bpm_table bpms) bpms) [] of
        Inl e \<Rightarrow> Inl e
      | Inr nm \<Rightarrow> Inr (bpm_table bpms, lines @ bpm_definitions rf space (bpm_table bpms), nm))"
    using dump_bpms_general [of rf space segs tpb bpms "[]" lines "[]"]
    by (cases "push_all segs tpb (bpm_references (bpm_table bpms) bpms) []")
       (simp_all add: bpm_table_def Let_def)
  have keys: "map fst (bpm_table bpms) = distinct_in_order (map snd bpms)"
    by (simp add: bpm_table_def map_fst_number_from)
  have ids: "\<forall>k < length (bpm_table bpms). snd (bpm_table bpms ! k) = nth_identifier (Suc k)"
    by (simp add: bpm_table_def length_number_from nth_number_from)
  have two: "length bpms < 36 ^ 2 - 1 \<longrightarrow> (\<forall>e \<in> set (bpm_table bpms). length (snd e) = 2)"
  proof (intro impI ballI)
    fix e assume len: "length bpms < 36 ^ 2 - 1" and e: "e \<in> set (bpm_table bpms)"
    from e obtain k where k: "k < length (bpm_table bpms)" and ek: "e = bpm_table bpms ! k"
      by (auto simp: in_set_conv_nth)
    have "length (bpm_table bpms) \<le> length bpms"
      using length_distinct_in_order [of "map snd bpms"]
      by (simp add: bpm_table_def length_number_from)
    with k len have "Suc k < 1296" by simp
    then have "length (nth_identifier (Suc k)) = 2" by (intro length_nth_identifier) simp_all
    with ids k ek show "length (snd e) = 2" by simp
  qed
  have same: "\<forall>t1 t2 v.
         bpm_table [(t1, v), (t2, v)] = [(v, ''01'')]
       \<and> bpm_definitions rf space (bpm_table [(t1, v), (t2, v)]) = [bpm_line rf space ''01'' v]
       \<and> bpm_references (bpm_table [(t1, v), (t2, v)]) [(t1, v), (t2, v)]
           = [(t1, ''08'', ''01''), (t2, ''08'', ''01'')]"
    using i1
    by (simp add: bpm_table_def distinct_in_order_def number_from_def enumerate_eq_zip
        bpm_definitions_def bpm_references_def identifier_for_def)
  from run keys ids i1 i2 two same show ?thesis by blast
qed

theorem bpm_identifiers_first_occurrence_witness:
  "length (score_bpms three_bpm_score) < 36 ^ 2 - 1
   \<and> bpm_table (score_bpms three_bpm_score) = [(120, ''01''), (150, ''02'')]
   \<and> bpm_references (bpm_table (score_bpms three_bpm_score)) (score_bpms three_bpm_score)
       = [(0, ''08'', ''01''), (960, ''08'', ''02''), (1920, ''08'', ''01'')]
   \<and> dump_bpms no_repr False (bar_lengths_in_ticks 480 [(0, 4)]) 480
         (score_bpms three_bpm_score) [] [] []
       = Inr ([(120, ''01''), (150, ''02'')], [''#BPM01:120'', ''#BPM02:150''],
              [(''00008'', \<lparr>raws = [(0, ''01''), (960, ''02'')], ticks_per_measure = 1920\<rparr>),
               (''00108'', \<lparr>raws = [(1920, ''01'')], ticks_per_measure = 1920\<rparr>)])
   \<and> list_all (\<lambda>e. length (snd e) = 2) (bpm_table (score_bpms three_bpm_score))"
proof -
  have l: "length (score_bpms three_bpm_score) < 36 ^ 2 - 1"
    by (simp add: three_bpm_score_def empty_score_def)
  have t: "bpm_table (score_bpms three_bpm_score) = [(120, ''01''), (150, ''02'')]"
    by code_simp
  have r: "bpm_references [(120, ''01''), (150, ''02'')] (score_bpms three_bpm_score)
       = [(0, ''08'', ''01''), (960, ''08'', ''02''), (1920, ''08'', ''01'')]"
    by code_simp
  have p: "push_all (bar_lengths_in_ticks 480 [(0, 4)]) 480
             [(0, ''08'', ''01''), (960, ''08'', ''02''), (1920, ''08'', ''01'')] []
           = Inr [(''00008'', \<lparr>raws = [(0, ''01''), (960, ''02'')], ticks_per_measure = 1920\<rparr>),
                  (''00108'', \<lparr>raws = [(1920, ''01'')], ticks_per_measure = 1920\<rparr>)]"
    by code_simp
  have d: "bpm_definitions no_repr False [(120, ''01''), (150, ''02'')]
           = [''#BPM01:120'', ''#BPM02:150'']"
    by code_simp
  note th = bpm_identifiers_first_occurrence
         [of no_repr False "bar_lengths_in_ticks 480 [(0, 4)]" 480 "score_bpms three_bpm_score" "[]"]
  from th have "dump_bpms no_repr False (bar_lengths_in_ticks 480 [(0, 4)]) 480
         (score_bpms three_bpm_score) [] [] [] =
     (case push_all (bar_lengths_in_ticks 480 [(0, 4)]) 480
             (bpm_references (bpm_table (score_bpms three_bpm_score)) (score_bpms three_bpm_score)) [] of
        Inl e \<Rightarrow> Inl e
      | Inr nm \<Rightarrow> Inr (bpm_table (score_bpms three_bpm_score),
                      [] @ bpm_definitions no_repr False (bpm_table (score_bpms three_bpm_score)), nm))"
    by (rule conjunct1)
  then have run: "dump_bpms no_repr False (bar_lengths_in_ticks 480 [(0, 4)]) 480
         (score_bpms three_bpm_score) [] [] []
       = Inr ([(120, ''01''), (150, ''02'')], [''#BPM01:120'', ''#BPM02:150''],
              [(''00008'', \<lparr>raws = [(0, ''01''), (960, ''02'')], ticks_per_measure = 1920\<rparr>),
               (''00108'', \<lparr>raws = [(1920, ''01'')], ticks_per_measure = 1920\<rparr>)])"
    unfolding t r p d by simp
  from th l have two: "list_all (\<lambda>e. length (snd e) = 2) (bpm_table (score_bpms three_bpm_score))"
    unfolding list_all_iff by blast
  from l t r run two show ?thesis by (simp only: simp_thms)
qed

section \<open>The stages of dumps\<close>

lemma dump_requests_lines:
  "dump_requests rs lines tpb = Inr (lines', tpb') \<Longrightarrow> lines' = lines @ map request_line rs"
proof (induction rs arbitrary: lines tpb)
  case Nil
  then show ?case by simp
next
  case (Cons r rs)
  from Cons.prems show ?case
    by (auto simp: Let_def request_line_def split: if_splits list.splits sum.splits
        dest!: Cons.IH)
qed

lemma dump_metadata_lines:
  "dump_metadata rf fs lines tpb = Inr (lines', tpb') \<Longrightarrow>
   lines' = lines @ metadata_lines rf fs"
proof (induction rf fs lines tpb rule: dump_metadata.induct)
  case (7 rf requests rest lines tpb)
  from "7.prems" obtain l1 t1 where
    r: "dump_requests requests (lines @ [[]]) tpb = Inr (l1, t1)"
    and m: "dump_metadata rf rest l1 t1 = Inr (lines', tpb')"
    by (auto split: sum.splits)
  from dump_requests_lines [OF r] "7.IH" [OF r refl m] show ?case
    by (simp add: metadata_lines_def)
qed (auto simp: metadata_lines_def)

lemma dump_requests_tpb:
  "dump_requests rs lines tpb = Inr (lines', tpb') \<Longrightarrow>
   tpb' = (if filter (\<lambda>r. startswith r ''ticks_per_beat'') rs = [] then tpb
           else override_value (last (filter (\<lambda>r. startswith r ''ticks_per_beat'') rs)) 480)"
proof (induction rs arbitrary: lines tpb)
  case Nil
  then show ?case by simp
next
  case (Cons r rs)
  show ?case
  proof (cases "startswith r ''ticks_per_beat''")
    case False
    with Cons.prems have "dump_requests rs (lines @ [request_line r]) tpb = Inr (lines', tpb')"
      by (simp add: Let_def request_line_def)
    from Cons.IH [OF this] False show ?thesis by simp
  next
    case True
    with Cons.prems obtain a b rest n where
      sp: "py_split r = a # b # rest" and n: "int_of_str b = Inr n"
      and rec: "dump_requests rs (lines @ [request_line r]) n = Inr (lines', tpb')"
      by (auto simp: Let_def request_line_def split: list.splits sum.splits)
    have ov: "override_value r 480 = n" using sp n by (simp add: override_value_def)
    from Cons.IH [OF rec] True ov show ?thesis by simp
  qed
qed

lemma dump_metadata_tpb:
  "dump_metadata rf fs lines tpb = Inr (lines', tpb') \<Longrightarrow>
   tpb' = (if overrides fs = [] then tpb else override_value (last (overrides fs)) 480)"
proof (induction rf fs lines tpb rule: dump_metadata.induct)
  case (7 rf requests rest lines tpb)
  from "7.prems" obtain l1 t1 where
    r: "dump_requests requests (lines @ [[]]) tpb = Inr (l1, t1)"
    and m: "dump_metadata rf rest l1 t1 = Inr (lines', tpb')"
    by (auto split: sum.splits)
  from dump_requests_tpb [OF r] "7.IH" [OF r refl m] show ?case
    by (auto simp: overrides_def)
qed (auto simp: overrides_def)

lemma push_all_append:
  "push_all segs tpb (ps @ qs) nm =
     (case push_all segs tpb ps nm of Inl e \<Rightarrow> Inl e | Inr nm' \<Rightarrow> push_all segs tpb qs nm')"
proof (induction ps arbitrary: nm)
  case Nil
  then show ?case by simp
next
  case (Cons p ps)
  obtain tick info data where p: "p = (tick, info, data)" by (cases p)
  show ?case unfolding p by (simp add: Cons.IH split: sum.splits)
qed

lemma push_notes_push_all:
  "push_notes segs tpb cat suffix ns nm = push_all segs tpb (note_pushes cat suffix ns) nm"
  by (induction ns arbitrary: nm) (simp_all add: note_pushes_def split: sum.splits)

lemma push_groups_allocate:
  "push_groups segs tpb cat groups cm nm = Inr nm' \<Longrightarrow>
   \<exists>channels. allocate cm groups = Inr channels
     \<and> push_all segs tpb (group_pushes cat channels groups) nm = Inr nm'"
proof (induction groups arbitrary: cm nm)
  case Nil
  then show ?case by (simp add: group_pushes_def)
next
  case (Cons g groups)
  show ?case
  proof (cases g)
    case Nil
    with Cons.prems show ?thesis by simp
  next
    case (Cons s ss)
    with Cons.prems obtain channel cm1 nm1 where
      gen: "generate_channel cm (note_tick s) (note_tick (last (s # ss))) = Inr (channel, cm1)"
      and pn: "push_notes segs tpb cat (base36_dumps (int channel)) (s # ss) nm = Inr nm1"
      and rest: "push_groups segs tpb cat groups cm1 nm1 = Inr nm'"
      by (auto simp del: push_notes.simps split: sum.splits prod.splits)
    from Cons.IH [OF rest] obtain channels where
      al: "allocate cm1 groups = Inr channels"
      and pa: "push_all segs tpb (group_pushes cat channels groups) nm1 = Inr nm'"
      by blast
    have "allocate cm (g # groups) = Inr (channel # channels)"
      using gen al Cons by simp
    moreover have "push_all segs tpb (group_pushes cat (channel # channels) (g # groups)) nm = Inr nm'"
      using pn pa Cons
      by (simp add: group_pushes_def push_all_append push_notes_push_all del: push_notes.simps)
    ultimately show ?thesis by blast
  qed
qed

lemma distinct_in_order_snoc:
  "distinct_in_order (xs @ [k]) = (if k \<in> set xs then distinct_in_order xs else distinct_in_order xs @ [k])"
  by (simp add: distinct_in_order_def)

lemma push_key_found:
  "find_bar_length segs tick = Some b \<Longrightarrow>
   push_key segs tpb (tick, info, data) = Some (format_03 (current_measure tpb b tick) @ info)"
  by (simp add: push_key_def)

lemma push_raw_keys:
  assumes "push_raw segs tpb nm tick info data = Inr nm'" "map fst nm = distinct_in_order ks"
  shows "map fst nm' = distinct_in_order (ks @ List.map_filter (push_key segs tpb) [(tick, info, data)])"
proof (cases "find_bar_length segs tick")
  case None
  with assms show ?thesis by (simp add: push_raw_def push_key_def List.map_filter_simps)
next
  case (Some b)
  let ?key = "format_03 (current_measure tpb b tick) @ info"
  from assms(1) Some obtain new where nm': "nm' = AList.update ?key new nm"
    by (auto simp: push_raw_def Let_def split: if_splits)
  have "set ks = set (map fst nm)" using assms(2) by (simp add: set_distinct_in_order)
  then show ?thesis
    using assms(2) Some
    by (simp add: nm' update_keys push_key_def List.map_filter_simps distinct_in_order_snoc)
qed

lemma push_all_keys:
  "push_all segs tpb ps nm = Inr nm' \<Longrightarrow> map fst nm = distinct_in_order ks \<Longrightarrow>
   map fst nm' = distinct_in_order (ks @ List.map_filter (push_key segs tpb) ps)"
proof (induction ps arbitrary: nm ks)
  case Nil
  then show ?case by (simp add: List.map_filter_simps)
next
  case (Cons p ps)
  obtain tick info data where p: "p = (tick, info, data)" by (cases p)
  from Cons.prems(1) obtain nm1 where
    1: "push_raw segs tpb nm tick info data = Inr nm1" and 2: "push_all segs tpb ps nm1 = Inr nm'"
    unfolding p by (auto split: sum.splits)
  from push_raw_keys [OF 1 Cons.prems(2)]
  have "map fst nm1 = distinct_in_order (ks @ List.map_filter (push_key segs tpb) [p])"
    by (simp add: p)
  from Cons.IH [OF 2 this] show ?case
    by (simp add: List.map_filter_def)
qed

lemma render_all_lines:
  "render_all space nm = Inr ls \<Longrightarrow>
   list_all2 (\<lambda>bucket l. render_line space (fst bucket) (snd bucket) = Inr l) nm ls"
proof (induction nm arbitrary: ls)
  case Nil
  then show ?case by simp
next
  case (Cons b nm)
  obtain tag m where b: "b = (tag, m)" by (cases b)
  from Cons.prems obtain l ls' where
    "render_line space tag m = Inr l" "render_all space nm = Inr ls'" "ls = l # ls'"
    unfolding b by (auto split: sum.splits)
  with Cons.IH [of ls'] show ?case by (simp add: b)
qed

lemma dump_bpms_table:
  "dump_bpms rf space segs tpb bpms [] lines [] =
     (case push_all segs tpb (bpm_references (bpm_table bpms) bpms) [] of
        Inl e \<Rightarrow> Inl e
      | Inr nm \<Rightarrow> Inr (bpm_table bpms, lines @ bpm_definitions rf space (bpm_table bpms), nm))"
  using dump_bpms_general [of rf space segs tpb bpms "[]" lines "[]"]
  by (cases "push_all segs tpb (bpm_references (bpm_table bpms) bpms) []")
     (simp_all add: bpm_table_def Let_def)

lemma dumps_score_sections:
  assumes "dumps_score rf space score tpb lines0 = Inr doc"
  shows "\<exists>til slide_channels guide_channels nm note_lines.
      til_line rf tpb (sort_key fst (score_tils score)) = Inr til
    \<and> allocate channel_provider_init (sorted_groups (score_slides score)) = Inr slide_channels
    \<and> allocate channel_provider_init (sorted_groups (score_guides score)) = Inr guide_channels
    \<and> push_all (bar_lengths_in_ticks tpb (sort_key fst (score_bar_lengths score))) tpb
          (score_pushes score slide_channels guide_channels) [] = Inr nm
    \<and> render_all space nm = Inr note_lines
    \<and> doc = lines0
           @ map (bar_length_line rf space) (sort_key fst (score_bar_lengths score)) @ [[]]
           @ bpm_definitions rf space (bpm_table (sort_key fst (score_bpms score))) @ [[]]
           @ [til, ''#HISPEED 00'', ''#MEASUREHS 00''] @ [[]]
           @ note_lines @ [[]]"
proof -
  let ?segs = "bar_lengths_in_ticks tpb (sort_key fst (score_bar_lengths score))"
  let ?bpms = "sort_key fst (score_bpms score)"
  let ?lines1 = "lines0 @ map (bar_length_line rf space) (sort_key fst (score_bar_lengths score)) @ [[]]"
  from assms obtain ids lines2 nm1 til nm2 nm3 nm4 nm5 note_lines where
    bp: "dump_bpms rf space ?segs tpb ?bpms [] ?lines1 [] = Inr (ids, lines2, nm1)"
    and til: "til_line rf tpb (sort_key fst (score_tils score)) = Inr til"
    and p2: "push_notes ?segs tpb ''1'' [] (sort_key note_tick (score_taps score)) nm1 = Inr nm2"
    and p3: "push_notes ?segs tpb ''5'' [] (sort_key note_tick (score_directionals score)) nm2 = Inr nm3"
    and p4: "push_groups ?segs tpb ''3'' (sorted_groups (score_slides score)) channel_provider_init nm3 = Inr nm4"
    and p5: "push_groups ?segs tpb ''9'' (sorted_groups (score_guides score)) channel_provider_init nm4 = Inr nm5"
    and re: "render_all space nm5 = Inr note_lines"
    and doc: "doc = lines2 @ [[]] @ [til, ''#HISPEED 00'', ''#MEASUREHS 00'', []] @ note_lines @ [[]]"
    unfolding dumps_score_def Let_def sorted_groups_def
    by (auto simp del: push_notes.simps push_groups.simps dump_bpms.simps
        split: if_splits sum.splits prod.splits)
  from bp have b1: "push_all ?segs tpb (bpm_references (bpm_table ?bpms) ?bpms) [] = Inr nm1"
    and l2: "lines2 = ?lines1 @ bpm_definitions rf space (bpm_table ?bpms)"
    unfolding dump_bpms_table by (auto split: sum.splits)
  from push_groups_allocate [OF p4] obtain sc where
    a4: "allocate channel_provider_init (sorted_groups (score_slides score)) = Inr sc"
    and q4: "push_all ?segs tpb (group_pushes ''3'' sc (sorted_groups (score_slides score))) nm3 = Inr nm4"
    by blast
  from push_groups_allocate [OF p5] obtain gc where
    a5: "allocate channel_provider_init (sorted_groups (score_guides score)) = Inr gc"
    and q5: "push_all ?segs tpb (group_pushes ''9'' gc (sorted_groups (score_guides score))) nm4 = Inr nm5"
    by blast
  have "push_all ?segs tpb (score_pushes score sc gc) [] = Inr nm5"
    using b1 p2 p3 q4 q5
    by (simp add: score_pushes_def push_all_append push_notes_push_all)
  with til a4 a5 re doc l2 show ?thesis by auto
qed

section \<open>The document\<close>

text \<open>
  C7 (as the code has it): when \<open>dumps\<close> returns, its lines are, in this order and with
  nothing else: the comment; the lines of the present metadata fields, where the field
  \<open>requests\<close> gives an empty line followed by one directive per request, the last
  \<open>ticks_per_beat\<close> request setting the ticks per beat of all tick arithmetic; an empty
  line; the bar-length directives sorted by measure; an empty line; one BPM definition
  per distinct tempo value; an empty line; the timescale line and the two fixed
  directives; an empty line; the rendered note lines, one per bucket, the buckets in
  order of first insertion by the pushes of BPM references, taps, directionals, slides
  and guides; an empty line.
\<close>

theorem dumps_section_order:
  assumes "dumps_lines rf score comment space = Inr doc"
  shows "\<exists>tpb til slide_channels guide_channels nm note_lines.
      tpb = active_ticks_per_beat (score_metadata score)
    \<and> til_line rf tpb (sort_key fst (score_tils score)) = Inr til
    \<and> allocate channel_provider_init (sorted_groups (score_slides score)) = Inr slide_channels
    \<and> allocate channel_provider_init (sorted_groups (score_guides score)) = Inr guide_channels
    \<and> push_all (bar_lengths_in_ticks tpb (sort_key fst (score_bar_lengths score))) tpb
          (score_pushes score slide_channels guide_channels) [] = Inr nm
    \<and> map fst nm = distinct_in_order
          (List.map_filter
             (push_key (bar_lengths_in_ticks tpb (sort_key fst (score_bar_lengths score))) tpb)
             (score_pushes score slide_channels guide_channels))
    \<and> list_all2 (\<lambda>bucket l. render_line space (fst bucket) (snd bucket) = Inr l) nm note_lines
    \<and> doc = [comment] @ metadata_lines rf (score_metadata score) @ [[]]
           @ map (bar_length_line rf space) (sort_key fst (score_bar_lengths score)) @ [[]]
           @ bpm_definitions rf space (bpm_table (sort_key fst (score_bpms score))) @ [[]]
           @ [til, ''#HISPEED 00'', ''#MEASUREHS 00''] @ [[]]
           @ note_lines @ [[]]
    \<and> dumps rf score comment space = Inr (join [CHR 0x0A] doc)"
proof -
  from assms obtain lines tpb where
    meta: "dump_metadata rf (score_metadata score) [comment] 480 = Inr (lines, tpb)"
    and sc: "dumps_score rf space score tpb (lines @ [[]]) = Inr doc"
    by (auto simp: dumps_lines_def split: sum.splits)
  have l: "lines = [comment] @ metadata_lines rf (score_metadata score)"
    using dump_metadata_lines [OF meta] .
  have t: "tpb = active_ticks_per_beat (score_metadata score)"
    using dump_metadata_tpb [OF meta] by (simp add: active_ticks_per_beat_def)
  from dumps_score_sections [OF sc] obtain til slide_channels guide_channels nm note_lines where
    s: "til_line rf tpb (sort_key fst (score_tils score)) = Inr til"
      "allocate channel_provider_init (sorted_groups (score_slides score)) = Inr slide_channels"
      "allocate channel_provider_init (sorted_groups (score_guides score)) = Inr guide_channels"
      "push_all (bar_lengths_in_ticks tpb (sort_key fst (score_bar_lengths score))) tpb
          (score_pushes score slide_channels guide_channels) [] = Inr nm"
      "render_all space nm = Inr note_lines"
      "doc = (lines @ [[]])
           @ map (bar_length_line rf space) (sort_key fst (score_bar_lengths score)) @ [[]]
           @ bpm_definitions rf space (bpm_table (sort_key fst (score_bpms score))) @ [[]]
           @ [til, ''#HISPEED 00'', ''#MEASUREHS 00''] @ [[]]
           @ note_lines @ [[]]"
    by blast
  have k: "map fst nm = distinct_in_order
          (List.map_filter
             (push_key (bar_lengths_in_ticks tpb (sort_key fst (score_bar_lengths score))) tpb)
             (score_pushes score slide_channels guide_channels))"
    using push_all_keys [OF s(4), of "[]"] by (simp add: distinct_in_order_def)
  have r: "list_all2 (\<lambda>bucket l. render_line space (fst bucket) (snd bucket) = Inr l) nm note_lines"
    using s(5) by (rule render_all_lines)
  have d: "dumps rf score comment space = Inr (join [CHR 0x0A] doc)"
    using assms by (simp add: dumps_def)
  have doc: "doc = [comment] @ metadata_lines rf (score_metadata score) @ [[]]
           @ map (bar_length_line rf space) (sort_key fst (score_bar_lengths score)) @ [[]]
           @ bpm_definitions rf space (bpm_table (sort_key fst (score_bpms score))) @ [[]]
           @ [til, ''#HISPEED 00'', ''#MEASUREHS 00''] @ [[]]
           @ note_lines @ [[]]"
    using s(6) l by simp
  from t s(1,2,3,4) k r doc d show ?thesis by blast
qed

theorem dumps_section_order_witness:
  "dumps_lines no_repr example_score ''comment'' False = Inr example_doc
   \<and> active_ticks_per_beat (score_metadata example_score) = 480
   \<and> metadata_lines no_repr (score_metadata example_score)
       = [''#TITLE '' @ [dquote] @ ''abc'' @ [dquote], ''#WAVEOFFSET 0'', [],
          request_line ''ticks_per_beat 480'']
   \<and> (\<exists>til note_lines.
         example_doc = [''comment''] @ metadata_lines no_repr (score_metadata example_score) @ [[]]
           @ map (bar_length_line no_repr False) (sort_key fst (score_bar_lengths example_score))
           @ [[]]
           @ bpm_definitions no_repr False (bpm_table (sort_key fst (score_bpms example_score)))
           @ [[]]
           @ [til, ''#HISPEED 00'', ''#MEASUREHS 00''] @ [[]]
           @ note_lines @ [[]])"
proof -
  have e: "dumps_lines no_repr example_score ''comment'' False = Inr example_doc"
    by code_simp
  have t: "active_ticks_per_beat (score_metadata example_score) = 480"
    by code_simp
  have m: "metadata_lines no_repr (score_metadata example_score)
       = [''#TITLE '' @ [dquote] @ ''abc'' @ [dquote], ''#WAVEOFFSET 0'', [],
          request_line ''ticks_per_beat 480'']"
    by code_simp
  from dumps_section_order [OF e] have "\<exists>til note_lines.
         example_doc = [''comment''] @ metadata_lines no_repr (score_metadata example_score) @ [[]]
           @ map (bar_length_line no_repr False) (sort_key fst (score_bar_lengths example_score))
           @ [[]]
           @ bpm_definitions no_repr False (bpm_table (sort_key fst (score_bpms example_score)))
           @ [[]]
           @ [til, ''#HISPEED 00'', ''#MEASUREHS 00''] @ [[]]
           @ note_lines @ [[]]"
    by blast
  with e t m show ?thesis by (simp only: simp_thms)
qed

text \<open>
  C7 as stated fails: with the one request \<open>r\<close> as the only metadata, the line after the
  comment is empty and the request directive comes third.
\<close>

theorem requests_blank_line_counterexample:
  "dumps_lines no_repr request_score ''c'' False
     = Inr [''c'', [], request_line ''r'', [], ''#00002:4'', [], [],
            til_empty, ''#HISPEED 00'', ''#MEASUREHS 00'', [], []]"
  by code_simp

section \<open>A bar-length list that is empty or starts late\<close>

lemma bar_lengths_in_ticks_Nil: "bar_lengths_in_ticks tpb [] = []"
  by (simp add: bar_lengths_in_ticks_def)

lemma push_all_no_segs: "push_all [] tpb ps nm = Inr nm"
proof (induction ps)
  case Nil
  then show ?case by simp
next
  case (Cons p ps)
  obtain tick info data where p: "p = (tick, info, data)" by (cases p)
  show ?case unfolding p using Cons.IH by (simp add: push_raw_def find_bar_length_def)
qed

lemma allocate_no_empty: "allocate cm groups = Inr channels \<Longrightarrow> [] \<notin> set groups"
proof (induction groups arbitrary: cm channels)
  case Nil
  then show ?case by simp
next
  case (Cons g groups)
  show ?case
  proof (cases g)
    case Nil
    with Cons.prems show ?thesis by simp
  next
    case (Cons s ss)
    with Cons.prems obtain cm1 cs where "allocate cm1 groups = Inr cs"
      by (auto split: sum.splits prod.splits)
    from Cons.IH [OF this] Cons show ?thesis by simp
  qed
qed

lemma push_groups_no_segs:
  "allocate cm groups = Inr channels \<Longrightarrow> push_groups [] tpb cat groups cm nm = Inr nm"
proof (induction groups arbitrary: cm channels)
  case Nil
  then show ?case by simp
next
  case (Cons g groups)
  show ?case
  proof (cases g)
    case Nil
    with Cons.prems show ?thesis by simp
  next
    case (Cons s ss)
    with Cons.prems obtain channel cm1 cs where
      gen: "generate_channel cm (note_tick s) (note_tick (last (s # ss))) = Inr (channel, cm1)"
      and al: "allocate cm1 groups = Inr cs"
      by (auto split: sum.splits prod.splits)
    have "push_notes [] tpb cat (base36_dumps (int channel)) (s # ss) nm = Inr nm"
      by (simp only: push_notes_push_all push_all_no_segs)
    with gen Cons.IH [OF al] Cons show ?thesis
      by (simp del: push_notes.simps)
  qed
qed

lemma last_bar_lengths_in_ticks:
  "last (bar_lengths_in_ticks tpb ((m, v) # rest)) = \<lparr>bl_start_tick = 0, bl_measure = m, bl_value = v\<rparr>"
  by (simp add: bar_lengths_in_ticks_def Let_def)

lemma find_last_start:
  assumes "segs \<noteq> []" "bl_start_tick (last segs) \<le> tick"
  shows "\<exists>b. find_bar_length segs tick = Some b"
proof -
  have "last segs \<in> set segs" using assms(1) by simp
  with assms(2) have "\<exists>b \<in> set segs. bl_start_tick b \<le> tick" by blast
  then show ?thesis
    by (cases "find_bar_length segs tick") (auto simp: find_bar_length_def find_None_iff)
qed

text \<open>
  C3 (as the code has it): the bar-length list is not validated. With an empty list
  every push is dropped, and \<open>dumps\<close>, when the metadata loop, the BPM guard, the
  timescale line and the channel allocation raise nothing, returns the document with no
  bar-length directive and no note line. With a first entry at any measure \<open>m\<close> the first
  segment starts at tick 0 in measure \<open>m\<close>, and every push at a tick from 0 on finds a
  segment.
\<close>

theorem bar_lengths_not_validated:
  assumes empty: "score_bar_lengths score = []"
    and meta: "dump_metadata rf (score_metadata score) [comment] 480 = Inr (lines, tpb)"
    and bpms: "length (score_bpms score) < 36 ^ 2 - 1"
    and til: "til_line rf tpb (sort_key fst (score_tils score)) = Inr til"
    and sl: "allocate channel_provider_init (sorted_groups (score_slides score)) = Inr slide_channels"
    and gu: "allocate channel_provider_init (sorted_groups (score_guides score)) = Inr guide_channels"
  shows "dumps_lines rf score comment space
           = Inr (lines @ [[], []]
                  @ bpm_definitions rf space (bpm_table (sort_key fst (score_bpms score)))
                  @ [[], til, ''#HISPEED 00'', ''#MEASUREHS 00'', [], []])
       \<and> (\<forall>m v rest t tick.
             last (bar_lengths_in_ticks t ((m, v) # rest))
               = \<lparr>bl_start_tick = 0, bl_measure = m, bl_value = v\<rparr>
           \<and> (0 \<le> tick \<longrightarrow>
                (\<exists>b. find_bar_length (bar_lengths_in_ticks t ((m, v) # rest)) tick = Some b)))"
proof -
  have ns: "[] \<notin> set (score_slides score)"
    using allocate_no_empty [OF sl] by (simp add: sorted_groups_def)
  have ng: "[] \<notin> set (score_guides score)"
    using allocate_no_empty [OF gu] by (simp add: sorted_groups_def)
  have bp: "dump_bpms rf space [] tpb (sort_key fst (score_bpms score)) [] ls [] =
         Inr (bpm_table (sort_key fst (score_bpms score)),
              ls @ bpm_definitions rf space (bpm_table (sort_key fst (score_bpms score))), [])" for ls
    by (simp add: dump_bpms_table push_all_no_segs)
  have pn: "push_notes [] tpb cat suffix ns nm = Inr nm" for cat suffix ns nm
    by (simp only: push_notes_push_all push_all_no_segs)
  have ps: "push_groups [] tpb ''3'' (sort_key (\<lambda>x. note_tick (hd x)) (score_slides score))
              channel_provider_init [] = Inr []"
    using push_groups_no_segs [OF sl] by (simp add: sorted_groups_def)
  have pg: "push_groups [] tpb ''9'' (sort_key (\<lambda>x. note_tick (hd x)) (score_guides score))
              channel_provider_init [] = Inr []"
    using push_groups_no_segs [OF gu] by (simp add: sorted_groups_def)
  have "dumps_score rf space score tpb (lines @ [[]])
          = Inr (lines @ [[], []]
                 @ bpm_definitions rf space (bpm_table (sort_key fst (score_bpms score)))
                 @ [[], til, ''#HISPEED 00'', ''#MEASUREHS 00'', [], []])"
    using ns ng bpms til
    by (simp add: dumps_score_def Let_def empty bar_lengths_in_ticks_Nil bp pn ps pg
        del: dump_bpms.simps push_notes.simps push_groups.simps)
  then have 1: "dumps_lines rf score comment space
           = Inr (lines @ [[], []]
                  @ bpm_definitions rf space (bpm_table (sort_key fst (score_bpms score)))
                  @ [[], til, ''#HISPEED 00'', ''#MEASUREHS 00'', [], []])"
    using meta by (simp add: dumps_lines_def)
  have 2: "\<forall>m v rest t tick.
             last (bar_lengths_in_ticks t ((m, v) # rest))
               = \<lparr>bl_start_tick = 0, bl_measure = m, bl_value = v\<rparr>
           \<and> (0 \<le> tick \<longrightarrow>
                (\<exists>b. find_bar_length (bar_lengths_in_ticks t ((m, v) # rest)) tick = Some b))"
  proof (intro allI conjI impI)
    fix m v rest t and tick :: int
    show l: "last (bar_lengths_in_ticks t ((m, v) # rest))
               = \<lparr>bl_start_tick = 0, bl_measure = m, bl_value = v\<rparr>"
      by (rule last_bar_lengths_in_ticks)
    assume "0 \<le> tick"
    moreover have "bar_lengths_in_ticks t ((m, v) # rest) \<noteq> []"
      by (simp add: bar_lengths_in_ticks_def Let_def)
    ultimately show "\<exists>b. find_bar_length (bar_lengths_in_ticks t ((m, v) # rest)) tick = Some b"
      using l by (intro find_last_start) simp_all
  qed
  from 1 2 show ?thesis by blast
qed

theorem bar_lengths_not_validated_witness:
  "score_bar_lengths no_bars_score = []
   \<and> dump_metadata no_repr (score_metadata no_bars_score) [''c''] 480 = Inr ([''c''], 480)
   \<and> til_line no_repr 480 (sort_key fst (score_tils no_bars_score)) = Inr til_empty
   \<and> dumps_lines no_repr no_bars_score ''c'' False
       = Inr [''c'', [], [], [], til_empty, ''#HISPEED 00'', ''#MEASUREHS 00'', [], []]"
proof -
  have e: "score_bar_lengths no_bars_score = []" by (simp add: no_bars_score_def)
  have m: "dump_metadata no_repr (score_metadata no_bars_score) [''c''] 480 = Inr ([''c''], 480)"
    by (simp add: no_bars_score_def empty_score_def)
  have b: "length (score_bpms no_bars_score) < 36 ^ 2 - 1"
    by (simp add: no_bars_score_def empty_score_def)
  have t: "til_line no_repr 480 (sort_key fst (score_tils no_bars_score)) = Inr til_empty"
    by code_simp
  have s: "allocate channel_provider_init (sorted_groups (score_slides no_bars_score)) = Inr []"
    by (simp add: no_bars_score_def empty_score_def sorted_groups_def)
  have g: "allocate channel_provider_init (sorted_groups (score_guides no_bars_score)) = Inr []"
    by (simp add: no_bars_score_def empty_score_def sorted_groups_def)
  have d: "bpm_definitions no_repr False (bpm_table (sort_key fst (score_bpms no_bars_score))) = []"
    by code_simp
  from bar_lengths_not_validated [OF e m b t s g, of False]
  have "dumps_lines no_repr no_bars_score ''c'' False
       = Inr [''c'', [], [], [], til_empty, ''#HISPEED 00'', ''#MEASUREHS 00'', [], []]"
    by (simp add: d)
  with e m t show ?thesis by (simp only: simp_thms)
qed

text \<open>
  C3 as stated fails: a score without bar lengths and a score whose first bar length is
  at measure 1 are both serialized; the tap of the first is dropped, the tap of the
  second is written to measure 1.
\<close>

theorem no_validation_counterexample:
  "score_bar_lengths no_bars_score = []
   \<and> dumps no_repr no_bars_score ''c'' False
       = Inr (join [CHR 0x0A]
                [''c'', [], [], [], til_empty, ''#HISPEED 00'', ''#MEASUREHS 00'', [], []])
   \<and> score_bar_lengths late_start_score = [(1, 4)]
   \<and> dumps no_repr late_start_score ''c'' False
       = Inr (join [CHR 0x0A]
                [''c'', [], ''#00102:4'', [], [], til_empty, ''#HISPEED 00'', ''#MEASUREHS 00'',
                 [], ''#00112:11'', []])"
  by code_simp

section \<open>Locating a tick and reading it back\<close>


















end
